theory Spec2Isabelle
  imports Main "HOL-Library.Char_ord" "HOL-Library.List_Lexorder" "HOL-Library.Multiset"
begin

section \<open>Smart Desktop Cleaner: data model\<close>

text \<open>
  \<^verbatim>\<open>FileScanner.h\<close>: \<^verbatim>\<open>struct FileInfo\<close>. Paths and names are byte strings;
  \<^verbatim>\<open>long long\<close> and \<^verbatim>\<open>time_t\<close> values are integers (every operation of the
  code that can leave the machine range is written out where it happens).
\<close>

record FileInfo =
  path :: string
  name :: string
  extension :: string
  sizeBytes :: int
  lastModified :: int

subsection \<open>Config.h\<close>

definition CATEGORY_DOCUMENTS :: string where "CATEGORY_DOCUMENTS = ''Documents''"
definition CATEGORY_IMAGES :: string where "CATEGORY_IMAGES = ''Images''"
definition CATEGORY_VIDEOS :: string where "CATEGORY_VIDEOS = ''Videos''"
definition CATEGORY_ARCHIVES :: string where "CATEGORY_ARCHIVES = ''Archives''"
definition CATEGORY_CODE :: string where "CATEGORY_CODE = ''Code''"
definition CATEGORY_OTHERS :: string where "CATEGORY_OTHERS = ''Others''"

definition DEFAULT_LARGE_FILE_SIZE_MB :: int where "DEFAULT_LARGE_FILE_SIZE_MB = 100"
definition DEFAULT_OLD_FILE_AGE_DAYS :: int where "DEFAULT_OLD_FILE_AGE_DAYS = 90"

text \<open>
  The extension sets are \<^verbatim>\<open>std::unordered_set\<close>s; they are listed in the order of
  their initialisers. The order in which a set is traversed is not fixed by the language,
  and does not matter below: one loop of \<^verbatim>\<open>buildExtensionMap\<close> stores the same
  category for every element of its set.
\<close>

definition EXTENSIONS_DOCUMENTS :: "string list" where
  "EXTENSIONS_DOCUMENTS =
     [''.pdf'', ''.doc'', ''.docx'', ''.txt'', ''.rtf'', ''.odt'',
      ''.xlsx'', ''.xls'', ''.pptx'', ''.ppt'', ''.csv'']"

definition EXTENSIONS_IMAGES :: "string list" where
  "EXTENSIONS_IMAGES =
     [''.jpg'', ''.jpeg'', ''.png'', ''.gif'', ''.bmp'', ''.svg'',
      ''.webp'', ''.ico'', ''.tiff'', ''.tif'', ''.raw'']"

definition EXTENSIONS_VIDEOS :: "string list" where
  "EXTENSIONS_VIDEOS =
     [''.mp4'', ''.mkv'', ''.avi'', ''.mov'', ''.wmv'', ''.flv'',
      ''.webm'', ''.mpeg'', ''.mpg'', ''.3gp'', ''.m4v'']"

definition EXTENSIONS_ARCHIVES :: "string list" where
  "EXTENSIONS_ARCHIVES =
     [''.zip'', ''.rar'', ''.7z'', ''.tar'', ''.gz'', ''.bz2'',
      ''.xz'', ''.tgz'', ''.tar.gz'', ''.iso'']"

definition EXTENSIONS_CODE :: "string list" where
  "EXTENSIONS_CODE =
     [''.cpp'', ''.c'', ''.h'', ''.hpp'', ''.py'', ''.java'',
      ''.js'', ''.ts'', ''.jsx'', ''.tsx'', ''.html'', ''.css'',
      ''.scss'', ''.php'', ''.rb'', ''.go'', ''.rs'', ''.swift'',
      ''.sh'', ''.bat'', ''.json'', ''.xml'', ''.yaml'', ''.yml'']"

definition getAllCategories :: "string list" where
  "getAllCategories =
     [CATEGORY_DOCUMENTS, CATEGORY_IMAGES, CATEGORY_VIDEOS,
      CATEGORY_ARCHIVES, CATEGORY_CODE, CATEGORY_OTHERS]"

text \<open>
  \<^verbatim>\<open>std::unordered_map<std::string, std::string>\<close> as a map;
  \<^verbatim>\<open>extensionMap[ext] = c\<close> stores or overwrites.
\<close>

definition addExtensions :: "string list \<Rightarrow> string \<Rightarrow> (string \<rightharpoonup> string) \<Rightarrow> (string \<rightharpoonup> string)" where
  "addExtensions exts category extensionMap = fold (\<lambda>ext m. m(ext \<mapsto> category)) exts extensionMap"

definition buildExtensionMap :: "string \<rightharpoonup> string" where
  "buildExtensionMap =
     addExtensions EXTENSIONS_CODE CATEGORY_CODE
       (addExtensions EXTENSIONS_ARCHIVES CATEGORY_ARCHIVES
         (addExtensions EXTENSIONS_VIDEOS CATEGORY_VIDEOS
           (addExtensions EXTENSIONS_IMAGES CATEGORY_IMAGES
             (addExtensions EXTENSIONS_DOCUMENTS CATEGORY_DOCUMENTS Map.empty))))"

section \<open>FileClassifier\<close>

text \<open>
  \<^verbatim>\<open>std::map<std::string, std::vector<FileInfo>>\<close> is an ordered map: a traversal
  visits the keys in increasing order of \<^verbatim>\<open>std::string\<close>'s \<^verbatim>\<open><\<close> (bytewise
  lexicographic). It is modelled by the list of its entries in traversal order.
  \<^verbatim>\<open>m[k]\<close> inserts a default value at the key's place when the key is absent.
\<close>

type_synonym 'v std_map = "(string \<times> 'v) list"

fun map_find :: "string \<Rightarrow> 'v std_map \<Rightarrow> 'v option" where
  "map_find k [] = None"
| "map_find k ((k', v) # m) = (if k = k' then Some v else map_find k m)"

fun map_assign :: "string \<Rightarrow> 'v \<Rightarrow> 'v std_map \<Rightarrow> 'v std_map" where
  "map_assign k v [] = [(k, v)]"
| "map_assign k v ((k', v') # m) =
     (if k < k' then (k, v) # (k', v') # m
      else if k = k' then (k, v) # m
      else (k', v') # map_assign k v m)"

definition map_push_back :: "string \<Rightarrow> 'a \<Rightarrow> 'a list std_map \<Rightarrow> 'a list std_map" where
  "map_push_back k x m =
     (case map_find k m of
        None \<Rightarrow> map_assign k [x] m
      | Some xs \<Rightarrow> map_assign k (xs @ [x]) m)"

definition classifyFile :: "FileInfo \<Rightarrow> string" where
  "classifyFile fileInfo =
     (case buildExtensionMap (extension fileInfo) of
        Some category \<Rightarrow> category
      | None \<Rightarrow> CATEGORY_OTHERS)"

text \<open>
  \<^verbatim>\<open>classifyFiles\<close> clears the member \<^verbatim>\<open>categorizedFiles_\<close>, stores an empty
  vector under every category and appends each file to the vector of its category. The
  function returns the new value of the member.
\<close>

definition initCategories :: "FileInfo list std_map" where
  "initCategories = foldl (\<lambda>m category. map_assign category [] m) [] getAllCategories"

definition classifyFiles :: "FileInfo list \<Rightarrow> FileInfo list std_map" where
  "classifyFiles files =
     foldl (\<lambda>m file. map_push_back (classifyFile file) file m) initCategories files"

definition getFilesInCategory :: "FileInfo list std_map \<Rightarrow> string \<Rightarrow> FileInfo list" where
  "getFilesInCategory categorizedFiles category =
     (case map_find category categorizedFiles of
        Some files \<Rightarrow> files
      | None \<Rightarrow> [])"

section \<open>FileScanner\<close>

subsection \<open>C++ integer arithmetic\<close>

text \<open>
  \<^verbatim>\<open>/\<close> on signed integers truncates towards zero. A conversion to a narrower signed
  type keeps the low bits. Signed overflow of \<^verbatim>\<open>-\<close> is undefined in C++; the model
  takes the two's complement result of a 64-bit machine, and the theorems about ages
  state the range in which no overflow happens.
\<close>

definition cpp_div :: "int \<Rightarrow> int \<Rightarrow> int" where
  "cpp_div a b = sgn a * sgn b * (\<bar>a\<bar> div \<bar>b\<bar>)"

definition to_int32 :: "int \<Rightarrow> int" where
  "to_int32 x = (x + 2 ^ 31) mod 2 ^ 32 - 2 ^ 31"

definition to_int64 :: "int \<Rightarrow> int" where
  "to_int64 x = (x + 2 ^ 63) mod 2 ^ 64 - 2 ^ 63"

subsection \<open>std::filesystem::path on file names\<close>

text \<open>
  \<^verbatim>\<open>path::filename()\<close> is the part after the last separator;
  \<^verbatim>\<open>path::extension()\<close> starts at the last period of the file name, unless the
  name is \<^verbatim>\<open>.\<close> or \<^verbatim>\<open>..\<close>, has no period, or has its only period in front;
  \<^verbatim>\<open>path::stem()\<close> is the file name without its extension.
\<close>

definition path_filename :: "string \<Rightarrow> string" where
  "path_filename p = rev (takeWhile (\<lambda>c. c \<noteq> CHR ''/'') (rev p))"

definition filename_extension :: "string \<Rightarrow> string" where
  "filename_extension fn =
     (let suffix = rev (takeWhile (\<lambda>c. c \<noteq> CHR ''.'') (rev fn)) in
      if fn = ''.'' \<or> fn = ''..'' then []
      else if CHR ''.'' \<notin> set fn then []
      else if Suc (length suffix) = length fn then []
      else CHR ''.'' # suffix)"

definition path_extension :: "string \<Rightarrow> string" where
  "path_extension p = filename_extension (path_filename p)"

definition path_stem :: "string \<Rightarrow> string" where
  "path_stem p =
     (let fn = path_filename p in take (length fn - length (filename_extension fn)) fn)"

text \<open>\<^verbatim>\<open>::tolower\<close> in the C locale.\<close>

definition tolower :: "char \<Rightarrow> char" where
  "tolower c =
     (case map_of (zip ''ABCDEFGHIJKLMNOPQRSTUVWXYZ'' ''abcdefghijklmnopqrstuvwxyz'') c of
        Some l \<Rightarrow> l
      | None \<Rightarrow> c)"

subsection \<open>Directory entries and the scan\<close>

text \<open>
  What the scan reads of one directory entry: a regular file with its size and its last
  write time (as \<^verbatim>\<open>time_t\<close>), an entry that is not a regular file, or an entry for
  which \<^verbatim>\<open>is_regular_file\<close>, \<^verbatim>\<open>file_size\<close> or \<^verbatim>\<open>last_write_time\<close> throws.
\<close>

datatype entry_status = Regular int int | NotRegular | Unreadable

record directory_entry =
  entry_path :: string
  entry_status :: entry_status

text \<open>
  What \<^verbatim>\<open>scanDirectory\<close> finds at a path: nothing; something that is not a
  directory; a path whose status or entries cannot be read (\<^verbatim>\<open>fs::exists\<close>,
  \<^verbatim>\<open>fs::is_directory\<close> or the construction of the iterator throws); or a directory
  with its entries in the order of the iterator, where the flag says that the iterator
  throws after the last of them.
\<close>

datatype dir_status =
  Missing | NotADirectory | Inaccessible | Listing "directory_entry list" bool

text \<open>
  The members of the class without the logger: \<^verbatim>\<open>files_\<close>, \<^verbatim>\<open>largeFiles_\<close>,
  \<^verbatim>\<open>oldFiles_\<close>, \<^verbatim>\<open>largeFileSizeMB_\<close> and \<^verbatim>\<open>oldFileAgeDays_\<close>.
\<close>

record FileScanner =
  scanner_files :: "FileInfo list"
  scanner_largeFiles :: "FileInfo list"
  scanner_oldFiles :: "FileInfo list"
  scanner_largeFileSizeMB :: int
  scanner_oldFileAgeDays :: int

definition newFileScanner :: FileScanner where
  "newFileScanner =
     \<lparr>scanner_files = [], scanner_largeFiles = [], scanner_oldFiles = [],
      scanner_largeFileSizeMB = DEFAULT_LARGE_FILE_SIZE_MB,
      scanner_oldFileAgeDays = DEFAULT_OLD_FILE_AGE_DAYS\<rparr>"

definition setLargeFileSizeMB :: "int \<Rightarrow> FileScanner \<Rightarrow> FileScanner" where
  "setLargeFileSizeMB sizeMB sc = sc\<lparr>scanner_largeFileSizeMB := sizeMB\<rparr>"

definition setOldFileAgeDays :: "int \<Rightarrow> FileScanner \<Rightarrow> FileScanner" where
  "setOldFileAgeDays ageDays sc = sc\<lparr>scanner_oldFileAgeDays := ageDays\<rparr>"

definition extractFileInfo :: "string \<Rightarrow> int \<Rightarrow> int \<Rightarrow> FileInfo" where
  "extractFileInfo p fileSize mtime =
     \<lparr>path = p, name = path_filename p, extension = map tolower (path_extension p),
      sizeBytes = fileSize, lastModified = mtime\<rparr>"

definition isLargeFile :: "FileScanner \<Rightarrow> FileInfo \<Rightarrow> bool" where
  "isLargeFile sc fileInfo =
     (let sizeMB = cpp_div (sizeBytes fileInfo) (1024 * 1024)
      in sizeMB \<ge> scanner_largeFileSizeMB sc)"

text \<open>
  \<^verbatim>\<open>isOldFile\<close> reads the system clock itself, at every call; \<open>nowTimeT\<close> is the
  value it reads.
\<close>

definition isOldFile :: "FileScanner \<Rightarrow> int \<Rightarrow> FileInfo \<Rightarrow> bool" where
  "isOldFile sc nowTimeT fileInfo =
     (let ageSeconds = to_int64 (nowTimeT - lastModified fileInfo);
          ageDays = to_int32 (cpp_div ageSeconds (60 * 60 * 24))
      in ageDays \<ge> scanner_oldFileAgeDays sc)"

text \<open>
  The loop over the entries. \<open>now k\<close> is the clock value that the call number \<open>k\<close>
  of \<^verbatim>\<open>isOldFile\<close> reads during the scan (\<open>k\<close> counts from 0); the loop passes the
  number of calls made so far.
\<close>

fun scanEntries :: "(nat \<Rightarrow> int) \<Rightarrow> nat \<Rightarrow> directory_entry list \<Rightarrow> FileScanner \<Rightarrow> FileScanner" where
  "scanEntries now k [] sc = sc"
| "scanEntries now k (entry # entries) sc =
     (case entry_status entry of
        Regular fileSize mtime \<Rightarrow>
          (let fileInfo = extractFileInfo (entry_path entry) fileSize mtime;
               sc1 = sc\<lparr>scanner_files := scanner_files sc @ [fileInfo]\<rparr>;
               sc2 = (if isLargeFile sc1 fileInfo
                      then sc1\<lparr>scanner_largeFiles := scanner_largeFiles sc1 @ [fileInfo]\<rparr>
                      else sc1);
               sc3 = (if isOldFile sc2 (now k) fileInfo
                      then sc2\<lparr>scanner_oldFiles := scanner_oldFiles sc2 @ [fileInfo]\<rparr>
                      else sc2)
           in scanEntries now (Suc k) entries sc3)
      | NotRegular \<Rightarrow> scanEntries now k entries sc
      | Unreadable \<Rightarrow> scanEntries now k entries sc)"

definition scanDirectory ::
    "(nat \<Rightarrow> int) \<Rightarrow> (string \<Rightarrow> dir_status) \<Rightarrow> string \<Rightarrow> FileScanner \<Rightarrow> bool \<times> FileScanner" where
  "scanDirectory now fsys directoryPath sc =
     (let sc0 = sc\<lparr>scanner_files := [], scanner_largeFiles := [], scanner_oldFiles := []\<rparr>
      in case fsys directoryPath of
           Missing \<Rightarrow> (False, sc0)
         | NotADirectory \<Rightarrow> (False, sc0)
         | Inaccessible \<Rightarrow> (False, sc0)
         | Listing entries iterator_throws \<Rightarrow> (\<not> iterator_throws, scanEntries now 0 entries sc0))"

section \<open>FileMover\<close>

subsection \<open>The file system and the clock\<close>

text \<open>
  The state of the file system is a map from paths to nodes; a file carries an identifier
  of its content. The three operations the mover calls can throw
  \<^verbatim>\<open>fs::filesystem_error\<close>: \<open>stat_fails\<close>, \<open>mkdir_fails\<close> and \<open>rename_fails\<close> say
  for which arguments the operating system refuses (permissions, a missing parent, a
  path that is too long, another device); \<^verbatim>\<open>fs::rename\<close> also fails when its source
  does not exist, and replaces a file at its target.
  \<open>local_time k\<close> is the local time (\<^verbatim>\<open>struct tm\<close>, for a date from 1900 on) that
  the call number \<open>k\<close> of \<^verbatim>\<open>handleFileCollision\<close> reads; \<open>clock_reads\<close> counts
  these calls. The logger is a sink for messages: its calls are left out, and its log
  file is not part of the state.
\<close>

datatype node = File nat | Directory

datatype fs_error = filesystem_error

record tm =
  tm_year :: nat
  tm_mon :: nat
  tm_mday :: nat
  tm_hour :: nat
  tm_min :: nat
  tm_sec :: nat

record world =
  nodes :: "string \<Rightarrow> node option"
  stat_fails :: "string \<Rightarrow> bool"
  mkdir_fails :: "string \<Rightarrow> bool"
  rename_fails :: "string \<Rightarrow> string \<Rightarrow> bool"
  local_time :: "nat \<Rightarrow> tm"
  clock_reads :: nat

definition fs_exists :: "world \<Rightarrow> string \<Rightarrow> fs_error + bool" where
  "fs_exists w p =
     (if stat_fails w p then Inl filesystem_error else Inr (nodes w p \<noteq> None))"

definition fs_create_directory :: "world \<Rightarrow> string \<Rightarrow> fs_error + world" where
  "fs_create_directory w p =
     (if mkdir_fails w p then Inl filesystem_error
      else case nodes w p of
             None \<Rightarrow> Inr (w\<lparr>nodes := (nodes w)(p \<mapsto> Directory)\<rparr>)
           | Some Directory \<Rightarrow> Inr w
           | Some (File c) \<Rightarrow> Inl filesystem_error)"

definition fs_rename :: "world \<Rightarrow> string \<Rightarrow> string \<Rightarrow> fs_error + world" where
  "fs_rename w old_p new_p =
     (if rename_fails w old_p new_p then Inl filesystem_error
      else case nodes w old_p of
             None \<Rightarrow> Inl filesystem_error
           | Some n \<Rightarrow> Inr (w\<lparr>nodes := ((nodes w)(old_p := None))(new_p \<mapsto> n)\<rparr>))"

subsection \<open>std::put_time with the format %Y%m%d_%H%M%S\<close>

text \<open>
  \<^verbatim>\<open>tm_year\<close> counts from 1900 and \<^verbatim>\<open>tm_mon\<close> from 0; \<^verbatim>\<open>%Y\<close> prints the year
  without padding, the other fields print two digits.
\<close>

definition digit_char :: "nat \<Rightarrow> char" where
  "digit_char d = ''0123456789'' ! d"

fun decimal :: "nat \<Rightarrow> string" where
  "decimal n = (if n < 10 then [digit_char n] else decimal (n div 10) @ [digit_char (n mod 10)])"

declare decimal.simps [simp del]

definition two_digits :: "nat \<Rightarrow> string" where
  "two_digits n = (if n < 10 then CHR ''0'' # decimal n else decimal n)"

definition put_time :: "tm \<Rightarrow> string" where
  "put_time t =
     decimal (tm_year t + 1900) @ two_digits (tm_mon t + 1) @ two_digits (tm_mday t) @
     ''_'' @ two_digits (tm_hour t) @ two_digits (tm_min t) @ two_digits (tm_sec t)"

subsection \<open>The mover\<close>

text \<open>
  The members of the class without the logger: \<^verbatim>\<open>dryRun_\<close>, \<^verbatim>\<open>successCount_\<close>,
  \<^verbatim>\<open>failCount_\<close> and \<^verbatim>\<open>warningCount_\<close>. The counters are C++ \<^verbatim>\<open>int\<close>s that
  only grow by one per file; they are integers here, which is what the code computes for
  fewer than \<open>2 ^ 31\<close> files.
\<close>

record FileMover =
  mover_dryRun :: bool
  mover_successCount :: int
  mover_failCount :: int
  mover_warningCount :: int

definition newFileMover :: "bool \<Rightarrow> FileMover" where
  "newFileMover dryRun =
     \<lparr>mover_dryRun = dryRun, mover_successCount = 0, mover_failCount = 0,
      mover_warningCount = 0\<rparr>"

definition handleFileCollision :: "world \<Rightarrow> string \<Rightarrow> string \<Rightarrow> string \<times> world" where
  "handleFileCollision w targetDirectory fileName =
     (let stem = path_stem fileName;
          ext = path_extension fileName;
          tm_buf = local_time w (clock_reads w);
          newFileName = stem @ ''_'' @ put_time tm_buf @ ext;
          newPath = targetDirectory @ ''/'' @ newFileName
      in (newPath, w\<lparr>clock_reads := Suc (clock_reads w)\<rparr>))"

text \<open>
  \<^verbatim>\<open>moveFile\<close>: an exception of \<^verbatim>\<open>fs::exists\<close> or \<^verbatim>\<open>fs::rename\<close> is caught by
  the handler of the function, which counts a failure; the warning of a collision is
  counted before.
\<close>

definition moveFile :: "FileMover \<Rightarrow> world \<Rightarrow> FileInfo \<Rightarrow> string \<Rightarrow> bool \<times> FileMover \<times> world" where
  "moveFile mv w fileInfo targetDirectory =
     (let targetPath = targetDirectory @ ''/'' @ name fileInfo in
      case fs_exists w targetPath of
        Inl e \<Rightarrow> (False, mv\<lparr>mover_failCount := mover_failCount mv + 1\<rparr>, w)
      | Inr found \<Rightarrow>
          (let (targetPath1, mv1, w1) =
                 (if found
                  then (let (newPath, w') = handleFileCollision w targetDirectory (name fileInfo)
                        in (newPath, mv\<lparr>mover_warningCount := mover_warningCount mv + 1\<rparr>, w'))
                  else (targetPath, mv, w))
           in if mover_dryRun mv1
              then (True, mv1\<lparr>mover_successCount := mover_successCount mv1 + 1\<rparr>, w1)
              else (case fs_rename w1 (path fileInfo) targetPath1 of
                      Inl e \<Rightarrow> (False, mv1\<lparr>mover_failCount := mover_failCount mv1 + 1\<rparr>, w1)
                    | Inr w2 \<Rightarrow>
                        (True, mv1\<lparr>mover_successCount := mover_successCount mv1 + 1\<rparr>, w2))))"

fun createCategoryDirectories ::
    "FileMover \<Rightarrow> world \<Rightarrow> string \<Rightarrow> FileInfo list std_map \<Rightarrow> bool \<times> world" where
  "createCategoryDirectories mv w baseDirectory [] = (True, w)"
| "createCategoryDirectories mv w baseDirectory ((category, files) # rest) =
     (if files = [] then createCategoryDirectories mv w baseDirectory rest
      else
        (let categoryPath = baseDirectory @ ''/'' @ category in
         case fs_exists w categoryPath of
           Inl e \<Rightarrow> (False, w)
         | Inr found \<Rightarrow>
             if mover_dryRun mv then createCategoryDirectories mv w baseDirectory rest
             else if \<not> found then
               (case fs_create_directory w categoryPath of
                  Inl e \<Rightarrow> (False, w)
                | Inr w' \<Rightarrow> createCategoryDirectories mv w' baseDirectory rest)
             else createCategoryDirectories mv w baseDirectory rest))"

fun moveFiles :: "FileMover \<Rightarrow> world \<Rightarrow> string \<Rightarrow> FileInfo list \<Rightarrow> FileMover \<times> world" where
  "moveFiles mv w targetDir [] = (mv, w)"
| "moveFiles mv w targetDir (file # files) =
     (case moveFile mv w file targetDir of
        (moved, mv', w') \<Rightarrow> moveFiles mv' w' targetDir files)"

fun moveCategories ::
    "FileMover \<Rightarrow> world \<Rightarrow> string \<Rightarrow> FileInfo list std_map \<Rightarrow> FileMover \<times> world" where
  "moveCategories mv w baseDirectory [] = (mv, w)"
| "moveCategories mv w baseDirectory ((category, files) # rest) =
     (if files = [] then moveCategories mv w baseDirectory rest
      else
        (let targetDir = baseDirectory @ ''/'' @ category in
         case moveFiles mv w targetDir files of
           (mv', w') \<Rightarrow> moveCategories mv' w' baseDirectory rest))"

text \<open>
  \<^verbatim>\<open>organizeFiles\<close> resets the counters, creates the directories and moves the files.
  The two phases catch what the file system throws; the handler of \<^verbatim>\<open>organizeFiles\<close>
  itself is left for exceptions of another origin (a failed allocation), which the model
  does not have.
\<close>

definition organizeFiles ::
    "FileMover \<Rightarrow> world \<Rightarrow> string \<Rightarrow> FileInfo list std_map \<Rightarrow> bool \<times> FileMover \<times> world" where
  "organizeFiles mv w baseDirectory categorizedFiles =
     (let mv0 = mv\<lparr>mover_successCount := 0, mover_failCount := 0, mover_warningCount := 0\<rparr> in
      case createCategoryDirectories mv0 w baseDirectory categorizedFiles of
        (False, w1) \<Rightarrow> (False, mv0, w1)
      | (True, w1) \<Rightarrow>
          (case moveCategories mv0 w1 baseDirectory categorizedFiles of
             (mv2, w2) \<Rightarrow> (True, mv2, w2)))"

section \<open>Auxiliary notions for the statements\<close>

text \<open>
  The time differences for which \<^verbatim>\<open>isOldFile\<close> computes without overflow: the
  number of days fits the \<^verbatim>\<open>int\<close> it is cast to.
\<close>

definition age_in_range :: "int \<Rightarrow> FileInfo \<Rightarrow> bool" where
  "age_in_range nowTimeT fileInfo \<longleftrightarrow>
     - (2 ^ 31 * 86400) < nowTimeT - lastModified fileInfo \<and>
     nowTimeT - lastModified fileInfo < 2 ^ 31 * 86400"

text \<open>The number of files of a classification: the sum of the lengths of its vectors.\<close>

definition totalFiles :: "'a list std_map \<Rightarrow> nat" where
  "totalFiles m = sum_list (map (\<lambda>(category, files). length files) m)"

text \<open>The mover with the counters that \<^verbatim>\<open>organizeFiles\<close> starts from.\<close>

definition resetCounters :: "FileMover \<Rightarrow> FileMover" where
  "resetCounters mv = mv\<lparr>mover_successCount := 0, mover_failCount := 0, mover_warningCount := 0\<rparr>"

text \<open>
  None of the existence checks of one call of \<^verbatim>\<open>organizeFiles\<close> throws: the check
  of the directory of each category that has files, and the check of the destination
  path of each file.
\<close>

definition existence_checks_succeed :: "world \<Rightarrow> string \<Rightarrow> FileInfo list std_map \<Rightarrow> bool" where
  "existence_checks_succeed w baseDirectory categorizedFiles =
     list_all (\<lambda>(category, files).
         files = [] \<or>
         (\<not> stat_fails w (baseDirectory @ ''/'' @ category) \<and>
          list_all (\<lambda>file. \<not> stat_fails w ((baseDirectory @ ''/'' @ category) @ ''/'' @ name file))
            files))
       categorizedFiles"

text \<open>
  A local time as \<^verbatim>\<open>localtime_r\<close> returns it for a date in the years 1900 to 9999,
  and the shape \<^verbatim>\<open>YYYYMMDD_HHMMSS\<close> of a timestamp.
\<close>

definition tm_in_range :: "tm \<Rightarrow> bool" where
  "tm_in_range t \<longleftrightarrow>
     tm_year t \<le> 8099 \<and> tm_mon t \<le> 11 \<and> tm_mday t \<le> 31 \<and>
     tm_hour t \<le> 23 \<and> tm_min t \<le> 59 \<and> tm_sec t \<le> 60"

definition is_digit :: "char \<Rightarrow> bool" where
  "is_digit c \<longleftrightarrow> c \<in> set ''0123456789''"

definition timestamp_shaped :: "string \<Rightarrow> bool" where
  "timestamp_shaped ts \<longleftrightarrow>
     length ts = 15 \<and> ts ! 8 = CHR ''_'' \<and>
     list_all is_digit (take 8 ts) \<and> list_all is_digit (drop 9 ts)"

text \<open>
  The moves of one call of \<^verbatim>\<open>organizeFiles\<close> in the order in which they are made:
  the files of each category, category by category in the order of the map, each with the
  directory of its category; and the move loop over such a list.
\<close>

definition batch :: "string \<Rightarrow> FileInfo list std_map \<Rightarrow> (string \<times> FileInfo) list" where
  "batch baseDirectory categorizedFiles =
     concat (map (\<lambda>(category, files). map (\<lambda>file. (baseDirectory @ ''/'' @ category, file)) files)
       categorizedFiles)"

fun moveAll :: "FileMover \<Rightarrow> world \<Rightarrow> (string \<times> FileInfo) list \<Rightarrow> FileMover \<times> world" where
  "moveAll mv w [] = (mv, w)"
| "moveAll mv w ((targetDir, file) # items) =
     (case moveFile mv w file targetDir of
        (moved, mv', w') \<Rightarrow> moveAll mv' w' items)"

text \<open>
  The path that \<^verbatim>\<open>moveFile\<close> passes to \<^verbatim>\<open>rename\<close>: the destination path of the
  name of the file, or the path that \<^verbatim>\<open>handleFileCollision\<close> computes when something
  exists there. A move fails when the existence check throws or, in real mode, the rename
  throws.
\<close>

definition moveTarget :: "world \<Rightarrow> FileInfo \<Rightarrow> string \<Rightarrow> string" where
  "moveTarget w fileInfo targetDirectory =
     (if nodes w (targetDirectory @ ''/'' @ name fileInfo) \<noteq> None
      then fst (handleFileCollision w targetDirectory (name fileInfo))
      else targetDirectory @ ''/'' @ name fileInfo)"

definition move_fails :: "FileMover \<Rightarrow> world \<Rightarrow> FileInfo \<Rightarrow> string \<Rightarrow> bool" where
  "move_fails mv w fileInfo targetDirectory \<longleftrightarrow>
     isl (fs_exists w (targetDirectory @ ''/'' @ name fileInfo)) \<or>
     (\<not> mover_dryRun mv \<and>
      isl (fs_rename w (path fileInfo) (moveTarget w fileInfo targetDirectory)))"

text \<open>
  The number of moves of a list that fail, each one in the state that the moves before it
  have left.
\<close>

fun failedMoves :: "FileMover \<Rightarrow> world \<Rightarrow> (string \<times> FileInfo) list \<Rightarrow> nat" where
  "failedMoves mv w [] = 0"
| "failedMoves mv w ((targetDir, file) # items) =
     (if move_fails mv w file targetDir then 1 else 0) +
     (case moveFile mv w file targetDir of
        (moved, mv', w') \<Rightarrow> failedMoves mv' w' items)"

text \<open>
  For a file with its target directory: the destination path of its name, and the path it
  is moved from.
\<close>

definition item_target :: "string \<times> FileInfo \<Rightarrow> string" where
  "item_target item = fst item @ ''/'' @ name (snd item)"

definition item_source :: "string \<times> FileInfo \<Rightarrow> string" where
  "item_source item = path (snd item)"

text \<open>
  Every file of the list exists, and neither its existence check nor its move to the
  destination path of its name fails.
\<close>

definition moves_unhindered :: "world \<Rightarrow> (string \<times> FileInfo) list \<Rightarrow> bool" where
  "moves_unhindered w items =
     list_all (\<lambda>item. nodes w (item_source item) \<noteq> None \<and>
                      \<not> stat_fails w (item_target item) \<and>
                      \<not> rename_fails w (item_source item) (item_target item))
       items"

text \<open>
  The directory of every category that has files is available: the category has a plain
  name, without separator, as the categories of \<^verbatim>\<open>Config.h\<close> have; the existence
  check of its directory does not fail; and the directory exists or can be created.
\<close>

definition directories_available :: "world \<Rightarrow> string \<Rightarrow> FileInfo list std_map \<Rightarrow> bool" where
  "directories_available w baseDirectory categorizedFiles =
     list_all (\<lambda>(category, files).
         files = [] \<or>
         (CHR ''/'' \<notin> set category \<and>
          \<not> stat_fails w (baseDirectory @ ''/'' @ category) \<and>
          (nodes w (baseDirectory @ ''/'' @ category) = Some Directory \<or>
           (nodes w (baseDirectory @ ''/'' @ category) = None \<and>
            \<not> mkdir_fails w (baseDirectory @ ''/'' @ category)))))
       categorizedFiles"

section \<open>Example inputs\<close>

text \<open>Concrete files, directories and file systems on which the theorems are instantiated.\<close>

definition report_pdf :: FileInfo where
  "report_pdf = \<lparr>path = ''/d/report.pdf'', name = ''report.pdf'',
     extension = ''.pdf'', sizeBytes = 2048, lastModified = 1700000000\<rparr>"

definition example_entries :: "directory_entry list" where
  "example_entries =
     [\<lparr>entry_path = ''/d/a.pdf'', entry_status = Regular (100 * 1048576) 1700000000\<rparr>,
      \<lparr>entry_path = ''/d/sub'', entry_status = NotRegular\<rparr>,
      \<lparr>entry_path = ''/d/gone.txt'', entry_status = Unreadable\<rparr>,
      \<lparr>entry_path = ''/d/B.MP4'', entry_status = Regular (100 * 1048576 - 1) 1700000000\<rparr>]"

definition example_dir :: "string \<Rightarrow> dir_status" where
  "example_dir p = (if p = ''/d'' then Listing example_entries False else Missing)"

definition example_clock :: "nat \<Rightarrow> int" where
  "example_clock k = 1700086399 + int k"

definition example_scanner :: FileScanner where
  "example_scanner = setOldFileAgeDays 1 (setLargeFileSizeMB 100 newFileScanner)"

definition example_a :: FileInfo where
  "example_a = \<lparr>path = ''/d/a.pdf'', name = ''a.pdf'', extension = ''.pdf'',
     sizeBytes = 104857600, lastModified = 1700000000\<rparr>"

definition example_b :: FileInfo where
  "example_b = \<lparr>path = ''/d/B.MP4'', name = ''B.MP4'', extension = ''.mp4'',
     sizeBytes = 104857599, lastModified = 1700000000\<rparr>"

definition photo_jpg :: FileInfo where
  "photo_jpg = \<lparr>path = ''/d/photo.jpg'', name = ''photo.jpg'',
     extension = ''.jpg'', sizeBytes = 4096, lastModified = 1700000000\<rparr>"

definition example_tm :: tm where
  "example_tm = \<lparr>tm_year = 126, tm_mon = 10, tm_mday = 2, tm_hour = 9, tm_min = 5, tm_sec = 7\<rparr>"

definition desktop_nodes :: "string \<Rightarrow> node option" where
  "desktop_nodes =
     map_of [(''/d'', Directory),
             (''/d/report.pdf'', File 1),
             (''/d/photo.jpg'', File 2)]"

definition healthy_world :: world where
  "healthy_world =
     \<lparr>nodes = desktop_nodes, stat_fails = (\<lambda>p. False), mkdir_fails = (\<lambda>p. False),
      rename_fails = (\<lambda>p q. False), local_time = (\<lambda>k. example_tm), clock_reads = 0\<rparr>"

text \<open>
  The directory \<^verbatim>\<open>Documents\<close> exists and cannot be searched: the status of a path
  below it cannot be read.
\<close>

definition locked_documents_world :: world where
  "locked_documents_world =
     healthy_world
       \<lparr>nodes := desktop_nodes(''/d/Documents'' \<mapsto> Directory),
        stat_fails := (\<lambda>p. p = ''/d/Documents/report.pdf'')\<rparr>"

text \<open>The directory \<^verbatim>\<open>Images\<close> cannot be created.\<close>

definition no_images_world :: world where
  "no_images_world = healthy_world\<lparr>mkdir_fails := (\<lambda>p. p = ''/d/Images'')\<rparr>"

text \<open>No file can be renamed.\<close>

definition read_only_world :: world where
  "read_only_world = healthy_world\<lparr>rename_fails := (\<lambda>p q. True)\<rparr>"

text \<open>The file \<^verbatim>\<open>report.pdf\<close> has vanished between the scan and the move.\<close>

definition vanished_report_world :: world where
  "vanished_report_world = healthy_world\<lparr>nodes := desktop_nodes(''/d/report.pdf'' := None)\<rparr>"

definition downloads_report_pdf :: FileInfo where
  "downloads_report_pdf = \<lparr>path = ''/x/report.pdf'', name = ''report.pdf'',
     extension = ''.pdf'', sizeBytes = 512, lastModified = 1700000500\<rparr>"

definition notes_txt :: FileInfo where
  "notes_txt = \<lparr>path = ''/d/notes.txt'', name = ''notes.txt'',
     extension = ''.txt'', sizeBytes = 64, lastModified = 1700000000\<rparr>"

text \<open>
  Two files named \<^verbatim>\<open>report.pdf\<close> in two directories, with a text file and a
  picture.
\<close>

definition mixed_files :: "FileInfo list" where
  "mixed_files = [report_pdf, notes_txt, photo_jpg, downloads_report_pdf]"

definition mixed_world :: world where
  "mixed_world =
     healthy_world\<lparr>nodes := desktop_nodes
       (''/d/notes.txt'' \<mapsto> File 4, ''/x/report.pdf'' \<mapsto> File 3)\<rparr>"

text \<open>
  The two files named \<^verbatim>\<open>report.pdf\<close>, with a third \<^verbatim>\<open>report.pdf\<close> already in
  \<^verbatim>\<open>Documents\<close>.
\<close>

definition occupied_world :: world where
  "occupied_world =
     healthy_world\<lparr>nodes := desktop_nodes
       (''/x/report.pdf'' \<mapsto> File 3,
        ''/d/Documents'' \<mapsto> Directory,
        ''/d/Documents/report.pdf'' \<mapsto> File 9)\<rparr>"

text \<open>Three files named \<^verbatim>\<open>report.pdf\<close> in three directories.\<close>

definition backup_report_pdf :: FileInfo where
  "backup_report_pdf = \<lparr>path = ''/y/report.pdf'', name = ''report.pdf'',
     extension = ''.pdf'', sizeBytes = 512, lastModified = 1700000900\<rparr>"

definition three_reports_world :: world where
  "three_reports_world =
     healthy_world\<lparr>nodes := desktop_nodes
       (''/x/report.pdf'' \<mapsto> File 3, ''/y/report.pdf'' \<mapsto> File 5)\<rparr>"

section \<open>Unfolding the constants of Config.h\<close>

lemmas category_defs =
  CATEGORY_DOCUMENTS_def CATEGORY_IMAGES_def CATEGORY_VIDEOS_def
  CATEGORY_ARCHIVES_def CATEGORY_CODE_def CATEGORY_OTHERS_def

lemmas extensions_defs =
  EXTENSIONS_DOCUMENTS_def EXTENSIONS_IMAGES_def EXTENSIONS_VIDEOS_def
  EXTENSIONS_ARCHIVES_def EXTENSIONS_CODE_def

section \<open>Facts about the ordered map\<close>

lemma map_find_map_assign:
  "map_find k' (map_assign k v m) = (if k' = k then Some v else map_find k' m)"
  by (induction m) auto

lemma keys_map_assign:
  "fst ` set (map_assign k v m) = insert k (fst ` set m)"
proof (induction m)
  case Nil
  then show ?case by simp
next
  case (Cons e m)
  obtain k' v' where e: "e = (k', v')" by (cases e)
  show ?case
    using Cons.IH by (cases "k < k'"; cases "k = k'") (auto simp: e)
qed

lemma sorted_map_assign:
  "sorted_wrt (<) (map fst m) \<Longrightarrow> sorted_wrt (<) (map fst (map_assign k v m))"
proof (induction m)
  case Nil
  then show ?case by simp
next
  case (Cons e m)
  obtain k' v' where e: "e = (k', v')" by (cases e)
  from Cons.prems have tl: "sorted_wrt (<) (map fst m)" by simp
  show ?case
  proof (cases "k < k'")
    case True
    with Cons.prems e show ?thesis by auto
  next
    case False
    show ?thesis
    proof (cases "k = k'")
      case True
      with Cons.prems e show ?thesis by simp
    next
      case ne: False
      with False have "k' < k" by simp
      moreover have "\<forall>x \<in> fst ` set (map_assign k v m). k' < x"
        using Cons.prems e \<open>k' < k\<close> unfolding keys_map_assign by auto
      ultimately show ?thesis
        using False ne e Cons.IH [OF tl] by simp
    qed
  qed
qed

lemma map_find_None_below:
  "sorted_wrt (<) (map fst m) \<Longrightarrow> \<forall>x \<in> set (map fst m). k < x \<Longrightarrow> map_find k m = None"
  by (induction m) auto

lemma totalFiles_map_assign:
  "sorted_wrt (<) (map fst m) \<Longrightarrow>
   totalFiles (map_assign k v m) + (case map_find k m of None \<Rightarrow> 0 | Some old \<Rightarrow> length old)
     = totalFiles m + length v"
proof (induction m)
  case Nil
  then show ?case by (simp add: totalFiles_def)
next
  case (Cons e m)
  obtain k' v' where e: "e = (k', v')" by (cases e)
  from Cons.prems have tl: "sorted_wrt (<) (map fst m)" by simp
  show ?case
  proof (cases "k < k'")
    case True
    have "\<forall>x \<in> set (map fst m). k < x"
      using Cons.prems e True by auto
    then have "map_find k m = None"
      using tl by (rule map_find_None_below [rotated])
    with True e show ?thesis by (auto simp: totalFiles_def)
  next
    case False
    show ?thesis
    proof (cases "k = k'")
      case True
      with e show ?thesis by (simp add: totalFiles_def)
    next
      case ne: False
      with False e Cons.IH [OF tl] show ?thesis by (simp add: totalFiles_def)
    qed
  qed
qed

lemma sorted_map_push_back:
  "sorted_wrt (<) (map fst m) \<Longrightarrow> sorted_wrt (<) (map fst (map_push_back k x m))"
  by (simp add: map_push_back_def sorted_map_assign split: option.splits)

lemma totalFiles_map_push_back:
  "sorted_wrt (<) (map fst m) \<Longrightarrow> totalFiles (map_push_back k x m) = Suc (totalFiles m)"
  using totalFiles_map_assign [of m k "[x]"]
    totalFiles_map_assign [of m k "the (map_find k m) @ [x]"]
  by (auto simp: map_push_back_def split: option.splits)

lemma map_find_map_push_back:
  "map_find k' (map_push_back k x m) =
     (if k' = k then Some ((case map_find k m of None \<Rightarrow> [] | Some xs \<Rightarrow> xs) @ [x])
      else map_find k' m)"
  by (simp add: map_push_back_def map_find_map_assign split: option.splits)

lemma keys_map_push_back:
  "fst ` set (map_push_back k x m) = insert k (fst ` set m)"
  by (simp add: map_push_back_def keys_map_assign split: option.splits)

section \<open>The classifier\<close>

lemma addExtensions_apply:
  "addExtensions exts category m e = (if e \<in> set exts then Some category else m e)"
  unfolding addExtensions_def by (induction exts arbitrary: m) auto

lemma buildExtensionMap_apply:
  "buildExtensionMap e =
     (if e \<in> set EXTENSIONS_CODE then Some CATEGORY_CODE
      else if e \<in> set EXTENSIONS_ARCHIVES then Some CATEGORY_ARCHIVES
      else if e \<in> set EXTENSIONS_VIDEOS then Some CATEGORY_VIDEOS
      else if e \<in> set EXTENSIONS_IMAGES then Some CATEGORY_IMAGES
      else if e \<in> set EXTENSIONS_DOCUMENTS then Some CATEGORY_DOCUMENTS
      else None)"
  by (simp add: buildExtensionMap_def addExtensions_apply)

lemma extensions_distinct:
  "distinct (EXTENSIONS_DOCUMENTS @ EXTENSIONS_IMAGES @ EXTENSIONS_VIDEOS @
             EXTENSIONS_ARCHIVES @ EXTENSIONS_CODE)"
  unfolding extensions_defs by simp

lemma classifyFile_category: "classifyFile f \<in> set getAllCategories"
  by (simp add: classifyFile_def buildExtensionMap_apply getAllCategories_def)

lemma initCategories_eq:
  "initCategories =
     [(CATEGORY_ARCHIVES, []), (CATEGORY_CODE, []), (CATEGORY_DOCUMENTS, []),
      (CATEGORY_IMAGES, []), (CATEGORY_OTHERS, []), (CATEGORY_VIDEOS, [])]"
  by (simp add: initCategories_def getAllCategories_def category_defs)

lemma map_find_classify_fold:
  "map_find c (foldl (\<lambda>m file. map_push_back (g file) file m) m files) =
     (case map_find c m of
        None \<Rightarrow> (if filter (\<lambda>f. g f = c) files = [] then None
                 else Some (filter (\<lambda>f. g f = c) files))
      | Some old \<Rightarrow> Some (old @ filter (\<lambda>f. g f = c) files))"
  by (induction files arbitrary: m) (auto simp: map_find_map_push_back split: option.splits)

lemma sorted_classify_fold:
  "sorted_wrt (<) (map fst m) \<Longrightarrow>
   sorted_wrt (<) (map fst (foldl (\<lambda>m file. map_push_back (g file) file m) m files))"
  by (induction files arbitrary: m) (auto simp: sorted_map_push_back)

lemma keys_classify_fold:
  "fst ` set (foldl (\<lambda>m file. map_push_back (g file) file m) m files) = fst ` set m \<union> g ` set files"
  by (induction files arbitrary: m) (auto simp: keys_map_push_back)

lemma totalFiles_classify_fold:
  "sorted_wrt (<) (map fst m) \<Longrightarrow>
   totalFiles (foldl (\<lambda>m file. map_push_back (g file) file m) m files) = totalFiles m + length files"
  by (induction files arbitrary: m) (auto simp: sorted_map_push_back totalFiles_map_push_back)

lemma mset_entries_map_assign:
  "sorted_wrt (<) (map fst m) \<Longrightarrow>
   mset (concat (map snd (map_assign k v m))) +
     (case map_find k m of None \<Rightarrow> {#} | Some old \<Rightarrow> mset old)
     = mset (concat (map snd m)) + mset v"
proof (induction m)
  case Nil
  then show ?case by simp
next
  case (Cons e m)
  obtain k' v' where e: "e = (k', v')" by (cases e)
  from Cons.prems have tl: "sorted_wrt (<) (map fst m)" by simp
  show ?case
  proof (cases "k < k'")
    case True
    have "\<forall>x \<in> set (map fst m). k < x"
      using Cons.prems e True by auto
    then have "map_find k m = None"
      using tl by (rule map_find_None_below [rotated])
    with True e show ?thesis by auto
  next
    case False
    show ?thesis
    proof (cases "k = k'")
      case True
      with e show ?thesis by simp
    next
      case ne: False
      with False e Cons.IH [OF tl] show ?thesis by (simp add: ac_simps)
    qed
  qed
qed

lemma mset_entries_map_push_back:
  "sorted_wrt (<) (map fst m) \<Longrightarrow>
   mset (concat (map snd (map_push_back k x m))) = add_mset x (mset (concat (map snd m)))"
  using mset_entries_map_assign [of m k "[x]"]
    mset_entries_map_assign [of m k "the (map_find k m) @ [x]"]
  by (auto simp: map_push_back_def split: option.splits)

lemma mset_entries_classify_fold:
  "sorted_wrt (<) (map fst m) \<Longrightarrow>
   mset (concat (map snd (foldl (\<lambda>m file. map_push_back (g file) file m) m files)))
     = mset (concat (map snd m)) + mset files"
  by (induction files arbitrary: m) (auto simp: sorted_map_push_back mset_entries_map_push_back)

lemma sorted_initCategories: "sorted_wrt (<) (map fst initCategories)"
  by (simp add: initCategories_eq category_defs)

lemma sorted_classifyFiles: "sorted_wrt (<) (map fst (classifyFiles files))"
  unfolding classifyFiles_def by (rule sorted_classify_fold [OF sorted_initCategories])

lemma keys_classifyFiles: "fst ` set (classifyFiles files) = set getAllCategories"
proof -
  have "classifyFile ` set files \<subseteq> set getAllCategories"
    using classifyFile_category by auto
  moreover have "fst ` set initCategories = set getAllCategories"
    by (auto simp: initCategories_eq getAllCategories_def)
  ultimately show ?thesis
    unfolding classifyFiles_def keys_classify_fold by auto
qed

lemma map_find_classifyFiles:
  "map_find c (classifyFiles files) =
     (if c \<in> set getAllCategories then Some (filter (\<lambda>f. classifyFile f = c) files) else None)"
proof (cases "c \<in> set getAllCategories")
  case True
  then have "map_find c initCategories = Some []"
    by (auto simp: initCategories_eq getAllCategories_def category_defs)
  with True show ?thesis
    by (simp add: classifyFiles_def map_find_classify_fold)
next
  case False
  then have "map_find c initCategories = None"
    by (auto simp: initCategories_eq getAllCategories_def category_defs)
  moreover have "filter (\<lambda>f. classifyFile f = c) files = []"
    using False classifyFile_category by (auto simp: filter_empty_conv)
  ultimately show ?thesis
    using False by (simp add: classifyFiles_def map_find_classify_fold)
qed

lemma getFilesInCategory_classifyFiles:
  "getFilesInCategory (classifyFiles files) c = filter (\<lambda>f. classifyFile f = c) files"
proof -
  have "c \<notin> set getAllCategories \<Longrightarrow> filter (\<lambda>f. classifyFile f = c) files = []"
    using classifyFile_category by (auto simp: filter_empty_conv)
  then show ?thesis
    by (auto simp: getFilesInCategory_def map_find_classifyFiles)
qed

lemma entries_by_keys:
  "distinct (map fst m) \<Longrightarrow> m = map (\<lambda>k. (k, the (map_find k m))) (map fst m)"
proof (induction m)
  case Nil
  then show ?case by simp
next
  case (Cons e m)
  obtain k v where e: "e = (k, v)" by (cases e)
  from Cons.prems e have nk: "k \<notin> fst ` set m" and d: "distinct (map fst m)" by auto
  have "map (\<lambda>k'. (k', the (map_find k' (e # m)))) (map fst m)
          = map (\<lambda>k'. (k', the (map_find k' m))) (map fst m)"
    using nk e by (intro map_cong) auto
  with Cons.IH [OF d] e show ?case by simp
qed

lemma classifyFiles_entries:
  "classifyFiles files =
     map (\<lambda>c. (c, filter (\<lambda>f. classifyFile f = c) files))
       [CATEGORY_ARCHIVES, CATEGORY_CODE, CATEGORY_DOCUMENTS,
        CATEGORY_IMAGES, CATEGORY_OTHERS, CATEGORY_VIDEOS]"
proof -
  let ?K = "[CATEGORY_ARCHIVES, CATEGORY_CODE, CATEGORY_DOCUMENTS,
        CATEGORY_IMAGES, CATEGORY_OTHERS, CATEGORY_VIDEOS]"
  have s: "sorted_wrt (<) (map fst (classifyFiles files))" by (rule sorted_classifyFiles)
  have "sorted_wrt (<) ?K" by (simp add: category_defs)
  moreover have "set (map fst (classifyFiles files)) = set ?K"
    using keys_classifyFiles [of files] by (auto simp: getAllCategories_def)
  ultimately have keys: "map fst (classifyFiles files) = ?K"
    using s by (metis strict_sorted_equal)
  have "distinct (map fst (classifyFiles files))"
    using s strict_sorted_iff by blast
  from entries_by_keys [OF this]
  have "classifyFiles files = map (\<lambda>k. (k, the (map_find k (classifyFiles files)))) ?K"
    unfolding keys .
  also have "\<dots> = map (\<lambda>c. (c, filter (\<lambda>f. classifyFile f = c) files)) ?K"
    by (intro map_cong) (auto simp: map_find_classifyFiles getAllCategories_def)
  finally show ?thesis .
qed

lemma buildExtensionMap_table:
  "buildExtensionMap e =
     (if e \<in> set EXTENSIONS_DOCUMENTS then Some CATEGORY_DOCUMENTS
      else if e \<in> set EXTENSIONS_IMAGES then Some CATEGORY_IMAGES
      else if e \<in> set EXTENSIONS_VIDEOS then Some CATEGORY_VIDEOS
      else if e \<in> set EXTENSIONS_ARCHIVES then Some CATEGORY_ARCHIVES
      else if e \<in> set EXTENSIONS_CODE then Some CATEGORY_CODE
      else None)"
  using extensions_distinct by (auto simp: buildExtensionMap_apply)

lemma count_categories:
  "c \<in> set getAllCategories \<Longrightarrow>
   length (filter (\<lambda>k. c = k)
     [CATEGORY_ARCHIVES, CATEGORY_CODE, CATEGORY_DOCUMENTS,
      CATEGORY_IMAGES, CATEGORY_OTHERS, CATEGORY_VIDEOS]) = 1"
  by (auto simp: getAllCategories_def category_defs)

text \<open>
  Claim C3. \<^verbatim>\<open>classifyFiles\<close> never drops a file: the lengths of the category
  vectors of the result add up to the length of the input, the vectors together hold
  exactly the input files (as a multiset), and the number of categories whose vector
  contains a given input file is one (none for a file that is not in the input).
\<close>

theorem classifyFiles_never_drops:
  "totalFiles (classifyFiles files) = length files \<and>
   mset (concat (map snd (classifyFiles files))) = mset files \<and>
   length (filter (\<lambda>(category, fs). f \<in> set fs) (classifyFiles files))
     = (if f \<in> set files then 1 else 0)"
proof -
  have "totalFiles initCategories = 0"
    by (simp add: initCategories_eq totalFiles_def)
  then have a: "totalFiles (classifyFiles files) = length files"
    by (simp add: classifyFiles_def totalFiles_classify_fold [OF sorted_initCategories])
  have "mset (concat (map snd initCategories)) = {#}"
    by (simp add: initCategories_eq)
  then have b: "mset (concat (map snd (classifyFiles files))) = mset files"
    by (simp add: classifyFiles_def mset_entries_classify_fold [OF sorted_initCategories])
  have c: "length (filter (\<lambda>(category, fs). f \<in> set fs) (classifyFiles files))
     = (if f \<in> set files then 1 else 0)"
  proof (cases "f \<in> set files")
    case True
    have "length (filter (\<lambda>(category, fs). f \<in> set fs) (classifyFiles files))
      = length (filter (\<lambda>k. classifyFile f = k)
          [CATEGORY_ARCHIVES, CATEGORY_CODE, CATEGORY_DOCUMENTS,
           CATEGORY_IMAGES, CATEGORY_OTHERS, CATEGORY_VIDEOS])"
      unfolding classifyFiles_entries filter_map length_map using True
      by (intro arg_cong [where f = length] filter_cong) auto
    also have "\<dots> = 1"
      by (rule count_categories [OF classifyFile_category])
    finally show ?thesis
      using True by (simp only: if_True)
  next
    case False
    then show ?thesis
      unfolding classifyFiles_entries by simp
  qed
  from a b c show ?thesis by blast
qed

text \<open>
  Claim C4. A file is in the vector of a category after \<^verbatim>\<open>classifyFiles\<close> exactly
  when it is an input file and the category is the one the extension table stores for
  its \<^verbatim>\<open>extension\<close> field, or \<^verbatim>\<open>Others\<close> when the table has no entry. The
  table maps exactly the strings of the five extension sets, each to the category of
  its set; the lookup is equality of strings, and every extension has a category.
\<close>

theorem classifyFiles_by_table:
  "(f \<in> set (getFilesInCategory (classifyFiles files) c) \<longleftrightarrow>
      f \<in> set files \<and>
      c = (case buildExtensionMap (extension f) of
             Some category \<Rightarrow> category | None \<Rightarrow> CATEGORY_OTHERS)) \<and>
   buildExtensionMap e =
     (if e \<in> set EXTENSIONS_DOCUMENTS then Some CATEGORY_DOCUMENTS
      else if e \<in> set EXTENSIONS_IMAGES then Some CATEGORY_IMAGES
      else if e \<in> set EXTENSIONS_VIDEOS then Some CATEGORY_VIDEOS
      else if e \<in> set EXTENSIONS_ARCHIVES then Some CATEGORY_ARCHIVES
      else if e \<in> set EXTENSIONS_CODE then Some CATEGORY_CODE
      else None)"
proof -
  have "f \<in> set (getFilesInCategory (classifyFiles files) c) \<longleftrightarrow>
      f \<in> set files \<and> c = classifyFile f"
    unfolding getFilesInCategory_classifyFiles by auto
  then show ?thesis
    unfolding classifyFile_def using buildExtensionMap_table [of e] by blast
qed

text \<open>
  The lookup compares whole strings: an extension in upper case, a prefix of a known
  extension and a known extension with a suffix all fall into \<^verbatim>\<open>Others\<close>; a file
  without extension does too.
\<close>

lemma classifyFile_exact_match:
  "classifyFile report_pdf = CATEGORY_DOCUMENTS \<and>
   classifyFile (report_pdf\<lparr>extension := ''.PDF''\<rparr>) = CATEGORY_OTHERS \<and>
   classifyFile (report_pdf\<lparr>extension := ''.pd''\<rparr>) = CATEGORY_OTHERS \<and>
   classifyFile (report_pdf\<lparr>extension := ''.pdfx''\<rparr>) = CATEGORY_OTHERS \<and>
   classifyFile (report_pdf\<lparr>extension := []\<rparr>) = CATEGORY_OTHERS"
  by code_simp

text \<open>
  Claim C5. For every input, also the empty one, the result of \<^verbatim>\<open>classifyFiles\<close>
  has an entry for each of the six categories of \<^verbatim>\<open>getAllCategories\<close>; for the
  empty input each entry is the empty vector.
\<close>

theorem classifyFiles_all_categories:
  assumes "c \<in> set getAllCategories"
  shows "map_find c (classifyFiles files) \<noteq> None \<and> map_find c (classifyFiles []) = Some []"
  using assms by (simp add: map_find_classifyFiles)

theorem classifyFiles_all_categories_witness:
  "CATEGORY_VIDEOS \<in> set getAllCategories \<and>
   map_find CATEGORY_VIDEOS (classifyFiles [report_pdf]) \<noteq> None \<and>
   map_find CATEGORY_VIDEOS (classifyFiles []) = Some []"
proof -
  have h: "CATEGORY_VIDEOS \<in> set getAllCategories"
    by (simp add: getAllCategories_def)
  show ?thesis
    using h classifyFiles_all_categories [OF h, of "[report_pdf]"] by simp
qed

text \<open>
  Claim C10. For a category name that is not a key of the classification result,
  \<^verbatim>\<open>getFilesInCategory\<close> returns the empty vector.
\<close>

theorem getFilesInCategory_absent:
  assumes "category \<notin> fst ` set categorizedFiles"
  shows "getFilesInCategory categorizedFiles category = []"
proof -
  have "map_find category categorizedFiles = None"
    using assms by (induction categorizedFiles) auto
  then show ?thesis by (simp add: getFilesInCategory_def)
qed

theorem getFilesInCategory_absent_witness:
  "''Music'' \<notin> fst ` set (classifyFiles [report_pdf]) \<and>
   getFilesInCategory (classifyFiles [report_pdf]) ''Music'' = []"
proof -
  have h: "''Music'' \<notin> fst ` set (classifyFiles [report_pdf])"
    unfolding keys_classifyFiles by (simp add: getAllCategories_def category_defs)
  show ?thesis
    using h getFilesInCategory_absent [OF h] by simp
qed

section \<open>The scanner\<close>

lemma cpp_div_nonneg: "0 \<le> a \<Longrightarrow> 0 < b \<Longrightarrow> cpp_div a b = a div b"
  by (cases "a = 0") (simp_all add: cpp_div_def)

lemma cpp_div_neg: "a < 0 \<Longrightarrow> 0 < b \<Longrightarrow> cpp_div a b = - ((- a) div b)"
  by (simp add: cpp_div_def)

lemma cpp_div_ge_iff:
  assumes "0 < b" and "0 < t"
  shows "t \<le> cpp_div a b \<longleftrightarrow> t \<le> a div b"
proof (cases "0 \<le> a")
  case True
  with assms show ?thesis by (simp add: cpp_div_nonneg)
next
  case False
  then have a: "a < 0" by simp
  have "0 \<le> (- a) div b"
    using a assms(1) by (simp add: pos_imp_zdiv_nonneg_iff)
  then have "cpp_div a b \<le> 0"
    using a assms(1) by (simp add: cpp_div_neg)
  moreover have "a div b < 0"
    using a assms(1) by (simp add: pos_imp_zdiv_neg_iff)
  ultimately show ?thesis using assms(2) by linarith
qed

lemma to_int32_id: "- (2 ^ 31) \<le> x \<Longrightarrow> x < 2 ^ 31 \<Longrightarrow> to_int32 x = x"
  by (simp add: to_int32_def)

lemma to_int64_id: "- (2 ^ 63) \<le> x \<Longrightarrow> x < 2 ^ 63 \<Longrightarrow> to_int64 x = x"
  by (simp add: to_int64_def)

lemma isLargeFile_iff:
  "0 < scanner_largeFileSizeMB sc \<Longrightarrow>
   isLargeFile sc f \<longleftrightarrow> scanner_largeFileSizeMB sc \<le> sizeBytes f div (1024 * 1024)"
  unfolding isLargeFile_def Let_def by (rule cpp_div_ge_iff) simp_all

lemma cpp_div_bounds:
  assumes "- (2 ^ 31 * 86400) < (d::int)" and "d < 2 ^ 31 * 86400"
  shows "- (2 ^ 31) \<le> cpp_div d 86400" and "cpp_div d 86400 < 2 ^ 31"
proof -
  show "- (2 ^ 31) \<le> cpp_div d 86400"
  proof (cases "0 \<le> d")
    case True
    then have "0 \<le> d div 86400" by (simp add: pos_imp_zdiv_nonneg_iff)
    with True show ?thesis by (simp add: cpp_div_nonneg)
  next
    case False
    have "- d \<le> 2 ^ 31 * 86400 - 1" using assms(1) by simp
    then have "(- d) div 86400 \<le> (2 ^ 31 * 86400 - 1) div 86400"
      by (rule zdiv_mono1) simp
    then have "(- d) div 86400 < 2 ^ 31" by simp
    with False show ?thesis by (simp add: cpp_div_neg)
  qed
  show "cpp_div d 86400 < 2 ^ 31"
  proof (cases "0 \<le> d")
    case True
    have "d \<le> 2 ^ 31 * 86400 - 1" using assms(2) by simp
    then have "d div 86400 \<le> (2 ^ 31 * 86400 - 1) div 86400"
      by (rule zdiv_mono1) simp
    then have "d div 86400 < 2 ^ 31" by simp
    with True show ?thesis by (simp add: cpp_div_nonneg)
  next
    case False
    then have "0 \<le> (- d) div 86400" by (simp add: pos_imp_zdiv_nonneg_iff)
    with False show ?thesis by (simp add: cpp_div_neg)
  qed
qed

lemma isOldFile_iff:
  assumes "0 < scanner_oldFileAgeDays sc" and "age_in_range t f"
  shows "isOldFile sc t f \<longleftrightarrow> scanner_oldFileAgeDays sc \<le> (t - lastModified f) div 86400"
proof -
  let ?d = "t - lastModified f"
  from assms(2) have lo: "- (2 ^ 31 * 86400) < ?d" and hi: "?d < 2 ^ 31 * 86400"
    by (simp_all add: age_in_range_def)
  have "to_int64 ?d = ?d"
    using lo hi by (intro to_int64_id) simp_all
  moreover have "to_int32 (cpp_div ?d 86400) = cpp_div ?d 86400"
    using cpp_div_bounds [OF lo hi] by (intro to_int32_id)
  moreover have "scanner_oldFileAgeDays sc \<le> cpp_div ?d 86400
      \<longleftrightarrow> scanner_oldFileAgeDays sc \<le> ?d div 86400"
    using assms(1) by (intro cpp_div_ge_iff) simp_all
  ultimately show ?thesis
    by (simp add: isOldFile_def Let_def)
qed

lemma isLargeFile_cong:
  "scanner_largeFileSizeMB a = scanner_largeFileSizeMB b \<Longrightarrow> isLargeFile a f = isLargeFile b f"
  by (simp add: isLargeFile_def)

lemma isOldFile_cong:
  "scanner_oldFileAgeDays a = scanner_oldFileAgeDays b \<Longrightarrow> isOldFile a t f = isOldFile b t f"
  by (simp add: isOldFile_def)

lemma scanEntries_result:
  "\<exists>new.
     scanner_files (scanEntries now k es sc) = scanner_files sc @ new \<and>
     scanner_largeFiles (scanEntries now k es sc)
       = scanner_largeFiles sc @ filter (isLargeFile sc) new \<and>
     scanner_oldFiles (scanEntries now k es sc)
       = scanner_oldFiles sc @
         map fst (filter (\<lambda>(f, j). isOldFile sc (now j) f) (zip new [k..<k + length new])) \<and>
     scanner_largeFileSizeMB (scanEntries now k es sc) = scanner_largeFileSizeMB sc \<and>
     scanner_oldFileAgeDays (scanEntries now k es sc) = scanner_oldFileAgeDays sc"
proof (induction es arbitrary: k sc)
  case Nil
  show ?case by (intro exI [of _ "[]"]) simp
next
  case (Cons e es)
  show ?case
  proof (cases "entry_status e")
    case (Regular fileSize mtime)
    define f where "f = extractFileInfo (entry_path e) fileSize mtime"
    define sc1 where "sc1 = sc\<lparr>scanner_files := scanner_files sc @ [f]\<rparr>"
    define sc2 where "sc2 = (if isLargeFile sc1 f
        then sc1\<lparr>scanner_largeFiles := scanner_largeFiles sc1 @ [f]\<rparr> else sc1)"
    define sc3 where "sc3 = (if isOldFile sc2 (now k) f
        then sc2\<lparr>scanner_oldFiles := scanner_oldFiles sc2 @ [f]\<rparr> else sc2)"
    have step: "scanEntries now k (e # es) sc = scanEntries now (Suc k) es sc3"
      by (simp add: Regular f_def sc1_def sc2_def sc3_def Let_def)
    have thr: "scanner_largeFileSizeMB sc3 = scanner_largeFileSizeMB sc"
      "scanner_oldFileAgeDays sc3 = scanner_oldFileAgeDays sc"
      by (simp_all add: sc1_def sc2_def sc3_def)
    have thr2: "scanner_largeFileSizeMB sc1 = scanner_largeFileSizeMB sc"
      "scanner_oldFileAgeDays sc2 = scanner_oldFileAgeDays sc"
      by (simp_all add: sc1_def sc2_def)
    have fl: "scanner_files sc3 = scanner_files sc @ [f]"
      by (simp add: sc1_def sc2_def sc3_def)
    have lg: "scanner_largeFiles sc3 = scanner_largeFiles sc @ filter (isLargeFile sc) [f]"
      using isLargeFile_cong [OF thr2(1), of f]
      by (simp add: sc1_def sc2_def sc3_def)
    have od: "scanner_oldFiles sc3
        = scanner_oldFiles sc @ map fst (filter (\<lambda>(f, j). isOldFile sc (now j) f) [(f, k)])"
      using isOldFile_cong [OF thr2(2), of "now k" f]
      by (simp add: sc1_def sc2_def sc3_def)
    from Cons.IH [of "Suc k" sc3] obtain new where
      n1: "scanner_files (scanEntries now (Suc k) es sc3) = scanner_files sc3 @ new" and
      n2: "scanner_largeFiles (scanEntries now (Suc k) es sc3)
             = scanner_largeFiles sc3 @ filter (isLargeFile sc3) new" and
      n3: "scanner_oldFiles (scanEntries now (Suc k) es sc3)
             = scanner_oldFiles sc3 @
               map fst (filter (\<lambda>(f, j). isOldFile sc3 (now j) f)
                 (zip new [Suc k..<Suc k + length new]))" and
      n4: "scanner_largeFileSizeMB (scanEntries now (Suc k) es sc3) = scanner_largeFileSizeMB sc3" and
      n5: "scanner_oldFileAgeDays (scanEntries now (Suc k) es sc3) = scanner_oldFileAgeDays sc3"
      by blast
    have l3: "isLargeFile sc3 = isLargeFile sc"
      using isLargeFile_cong [OF thr(1)] by blast
    have o3: "\<And>t. isOldFile sc3 t = isOldFile sc t"
      using isOldFile_cong [OF thr(2)] by blast
    have z: "zip (f # new) [k..<k + length (f # new)]
        = (f, k) # zip new [Suc k..<Suc k + length new]"
    proof -
      have "[k..<k + length (f # new)] = k # [Suc k..<Suc k + length new]"
        using upt_conv_Cons [of k "k + length (f # new)"] by simp
      then show ?thesis by (simp only: zip_Cons_Cons)
    qed
    show ?thesis
      unfolding step
      apply (intro exI [of _ "f # new"])
      unfolding z
      using n1 n2 n3 n4 n5 by (simp add: fl lg od l3 o3 thr)
  next
    case NotRegular
    with Cons.IH [of k sc] show ?thesis by simp
  next
    case Unreadable
    with Cons.IH [of k sc] show ?thesis by simp
  qed
qed

lemma scanDirectory_result:
  "scanner_largeFiles (snd (scanDirectory now fsys dir sc))
     = filter (isLargeFile sc) (scanner_files (snd (scanDirectory now fsys dir sc))) \<and>
   scanner_oldFiles (snd (scanDirectory now fsys dir sc))
     = map fst (filter (\<lambda>(f, j). isOldFile sc (now j) f)
         (zip (scanner_files (snd (scanDirectory now fsys dir sc)))
              [0..<length (scanner_files (snd (scanDirectory now fsys dir sc)))]))"
proof (cases "fsys dir")
  case Missing
  then show ?thesis by (simp add: scanDirectory_def)
next
  case NotADirectory
  then show ?thesis by (simp add: scanDirectory_def)
next
  case Inaccessible
  then show ?thesis by (simp add: scanDirectory_def)
next
  case (Listing es thr)
  define sc0 where
    "sc0 = sc\<lparr>scanner_files := [], scanner_largeFiles := [], scanner_oldFiles := []\<rparr>"
  have r: "snd (scanDirectory now fsys dir sc) = scanEntries now 0 es sc0"
    by (simp add: scanDirectory_def Listing sc0_def)
  have l0: "isLargeFile sc0 = isLargeFile sc"
    using isLargeFile_cong [of sc0 sc] by (auto simp: sc0_def)
  have o0: "\<And>t. isOldFile sc0 t = isOldFile sc t"
    using isOldFile_cong [of sc0 sc] by (auto simp: sc0_def)
  have e: "scanner_files sc0 = []" "scanner_largeFiles sc0 = []" "scanner_oldFiles sc0 = []"
    by (simp_all add: sc0_def)
  from scanEntries_result [of now 0 es sc0] show ?thesis
    unfolding r e l0 o0 by auto
qed

text \<open>
  \<^verbatim>\<open>extractFileInfo\<close> on the two regular files of the example directory: the name is
  the last component of the path, the extension is in lower case.
\<close>

lemma extract_a: "extractFileInfo ''/d/a.pdf'' (100 * 1048576) 1700000000 = example_a"
  by code_simp

lemma extract_b: "extractFileInfo ''/d/B.MP4'' (100 * 1048576 - 1) 1700000000 = example_b"
  by code_simp

lemma example_scan:
  "scanDirectory example_clock example_dir ''/d'' example_scanner =
     (True, example_scanner\<lparr>scanner_files := [example_a, example_b],
        scanner_largeFiles := [example_a], scanner_oldFiles := [example_b]\<rparr>)"
  by code_simp

text \<open>
  Claim C7. For a positive size threshold, the large files of a scan are exactly the
  scanned files whose size in bytes, divided by \<open>1024 * 1024\<close> and rounded down, is at
  least the threshold (in scan order). A file of exactly threshold times
  \<open>1024 * 1024\<close> bytes is large, a file of one byte less is not.
\<close>

theorem scan_large_threshold:
  assumes "0 < scanner_largeFileSizeMB sc"
  shows "scanner_largeFiles (snd (scanDirectory now fsys dir sc))
       = filter (\<lambda>f. scanner_largeFileSizeMB sc \<le> sizeBytes f div (1024 * 1024))
           (scanner_files (snd (scanDirectory now fsys dir sc))) \<and>
     isLargeFile sc (f\<lparr>sizeBytes := scanner_largeFileSizeMB sc * (1024 * 1024)\<rparr>) \<and>
     \<not> isLargeFile sc (f\<lparr>sizeBytes := scanner_largeFileSizeMB sc * (1024 * 1024) - 1\<rparr>)"
proof -
  have "isLargeFile sc = (\<lambda>f. scanner_largeFileSizeMB sc \<le> sizeBytes f div (1024 * 1024))"
    using isLargeFile_iff [OF assms] by blast
  then have a: "scanner_largeFiles (snd (scanDirectory now fsys dir sc))
       = filter (\<lambda>f. scanner_largeFileSizeMB sc \<le> sizeBytes f div (1024 * 1024))
           (scanner_files (snd (scanDirectory now fsys dir sc)))"
    using scanDirectory_result [of now fsys dir sc] by simp
  have b: "isLargeFile sc (f\<lparr>sizeBytes := scanner_largeFileSizeMB sc * (1024 * 1024)\<rparr>)"
    by (simp add: isLargeFile_iff [OF assms])
  have "(scanner_largeFileSizeMB sc * 1048576 - 1) div 1048576 = scanner_largeFileSizeMB sc - 1"
    by (simp add: zdiv_zminus1_eq_if div_eq_minus1)
  then have c: "\<not> isLargeFile sc (f\<lparr>sizeBytes := scanner_largeFileSizeMB sc * (1024 * 1024) - 1\<rparr>)"
    by (simp add: isLargeFile_iff [OF assms])
  from a b c show ?thesis by blast
qed

theorem scan_large_threshold_witness:
  "0 < scanner_largeFileSizeMB example_scanner \<and>
   (scanner_largeFiles (snd (scanDirectory example_clock example_dir ''/d'' example_scanner))
       = filter (\<lambda>f. scanner_largeFileSizeMB example_scanner \<le> sizeBytes f div (1024 * 1024))
           (scanner_files (snd (scanDirectory example_clock example_dir ''/d'' example_scanner))) \<and>
     isLargeFile example_scanner
       (example_b\<lparr>sizeBytes := scanner_largeFileSizeMB example_scanner * (1024 * 1024)\<rparr>) \<and>
     \<not> isLargeFile example_scanner
       (example_b\<lparr>sizeBytes := scanner_largeFileSizeMB example_scanner * (1024 * 1024) - 1\<rparr>)) \<and>
   scanner_files (snd (scanDirectory example_clock example_dir ''/d'' example_scanner))
     = [example_a, example_b] \<and>
   scanner_largeFiles (snd (scanDirectory example_clock example_dir ''/d'' example_scanner))
     = [example_a]"
proof -
  have h: "0 < scanner_largeFileSizeMB example_scanner"
    by code_simp
  have e: "scanner_files (snd (scanDirectory example_clock example_dir ''/d'' example_scanner))
     = [example_a, example_b] \<and>
   scanner_largeFiles (snd (scanDirectory example_clock example_dir ''/d'' example_scanner))
     = [example_a]"
    by (simp add: example_scan)
  from h e scan_large_threshold [OF h, of example_clock example_dir "''/d''" example_b]
  show ?thesis by blast
qed

text \<open>
  Claim C8, as amended. \<^verbatim>\<open>isOldFile\<close> reads the clock at every call, so each file
  is judged against the clock value of its own check: for a positive age threshold
  (a C++ \<^verbatim>\<open>int\<close>), and as long as the day counts fit an \<^verbatim>\<open>int\<close>, the old files
  of a scan are exactly the scanned files for which the difference between the clock
  value read at the file's check and the last modification time, divided by 86400 and
  rounded down, is at least the threshold. A file modified exactly threshold times 86400
  seconds before the value read is old, a file modified one second less before is not.
\<close>

theorem scan_old_threshold:
  assumes "0 < scanner_oldFileAgeDays sc" and "scanner_oldFileAgeDays sc < 2 ^ 31"
    and "\<forall>j < length (scanner_files (snd (scanDirectory now fsys dir sc))).
           age_in_range (now j) (scanner_files (snd (scanDirectory now fsys dir sc)) ! j)"
  shows "scanner_oldFiles (snd (scanDirectory now fsys dir sc))
       = map fst (filter (\<lambda>(f, j). scanner_oldFileAgeDays sc \<le> (now j - lastModified f) div 86400)
           (zip (scanner_files (snd (scanDirectory now fsys dir sc)))
                [0..<length (scanner_files (snd (scanDirectory now fsys dir sc)))])) \<and>
     isOldFile sc t (f\<lparr>lastModified := t - scanner_oldFileAgeDays sc * 86400\<rparr>) \<and>
     \<not> isOldFile sc t (f\<lparr>lastModified := t - (scanner_oldFileAgeDays sc * 86400 - 1)\<rparr>)"
proof -
  let ?fs = "scanner_files (snd (scanDirectory now fsys dir sc))"
  let ?D = "scanner_oldFileAgeDays sc"
  have "filter (\<lambda>(f, j). isOldFile sc (now j) f) (zip ?fs [0..<length ?fs])
      = filter (\<lambda>(f, j). ?D \<le> (now j - lastModified f) div 86400) (zip ?fs [0..<length ?fs])"
  proof (rule filter_cong [OF refl])
    fix x assume x: "x \<in> set (zip ?fs [0..<length ?fs])"
    obtain g j where gj: "x = (g, j)" by (cases x)
    from x gj have "j < length ?fs" and "g = ?fs ! j"
      by (auto simp: set_zip)
    with assms(3) have "age_in_range (now j) g" by blast
    from isOldFile_iff [OF assms(1) this] gj
    show "(case x of (f, j) \<Rightarrow> isOldFile sc (now j) f)
        = (case x of (f, j) \<Rightarrow> ?D \<le> (now j - lastModified f) div 86400)"
      by simp
  qed
  then have a: "scanner_oldFiles (snd (scanDirectory now fsys dir sc))
       = map fst (filter (\<lambda>(f, j). ?D \<le> (now j - lastModified f) div 86400)
           (zip ?fs [0..<length ?fs]))"
    using scanDirectory_result [of now fsys dir sc] by simp
  have r1: "age_in_range t (f\<lparr>lastModified := t - ?D * 86400\<rparr>)"
    using assms(1,2) by (simp add: age_in_range_def)
  have r2: "age_in_range t (f\<lparr>lastModified := t - (?D * 86400 - 1)\<rparr>)"
    using assms(1,2) by (simp add: age_in_range_def)
  have b: "isOldFile sc t (f\<lparr>lastModified := t - ?D * 86400\<rparr>)"
    by (simp add: isOldFile_iff [OF assms(1) r1])
  have "(?D * 86400 - 1) div 86400 = ?D - 1"
    by (simp add: zdiv_zminus1_eq_if div_eq_minus1)
  then have c: "\<not> isOldFile sc t (f\<lparr>lastModified := t - (?D * 86400 - 1)\<rparr>)"
    by (simp add: isOldFile_iff [OF assms(1) r2])
  from a b c show ?thesis by blast
qed

theorem scan_old_threshold_witness:
  "0 < scanner_oldFileAgeDays example_scanner \<and>
   scanner_oldFileAgeDays example_scanner < 2 ^ 31 \<and>
   age_in_range (example_clock 0) example_a \<and> age_in_range (example_clock 1) example_b \<and>
   (scanner_oldFiles (snd (scanDirectory example_clock example_dir ''/d'' example_scanner))
       = map fst (filter (\<lambda>(f, j). scanner_oldFileAgeDays example_scanner
                                     \<le> (example_clock j - lastModified f) div 86400)
           (zip (scanner_files (snd (scanDirectory example_clock example_dir ''/d'' example_scanner)))
                [0..<length (scanner_files
                   (snd (scanDirectory example_clock example_dir ''/d'' example_scanner)))])) \<and>
     isOldFile example_scanner 1700086400
       (example_a\<lparr>lastModified := 1700086400 - scanner_oldFileAgeDays example_scanner * 86400\<rparr>) \<and>
     \<not> isOldFile example_scanner 1700086400
       (example_a\<lparr>lastModified :=
          1700086400 - (scanner_oldFileAgeDays example_scanner * 86400 - 1)\<rparr>)) \<and>
   scanner_oldFiles (snd (scanDirectory example_clock example_dir ''/d'' example_scanner))
     = [example_b]"
proof -
  have h1: "0 < scanner_oldFileAgeDays example_scanner" by code_simp
  have h2: "scanner_oldFileAgeDays example_scanner < 2 ^ 31" by code_simp
  have ra: "age_in_range (example_clock 0) example_a" by code_simp
  have rb: "age_in_range (example_clock 1) example_b" by code_simp
  have e: "scanner_files (snd (scanDirectory example_clock example_dir ''/d'' example_scanner))
     = [example_a, example_b]"
    "scanner_oldFiles (snd (scanDirectory example_clock example_dir ''/d'' example_scanner))
     = [example_b]"
    by (simp_all add: example_scan)
  have h3: "\<forall>j < length (scanner_files
                (snd (scanDirectory example_clock example_dir ''/d'' example_scanner))).
           age_in_range (example_clock j)
             (scanner_files (snd (scanDirectory example_clock example_dir ''/d'' example_scanner)) ! j)"
    unfolding e using ra rb by (simp add: less_Suc_eq)
  from h1 h2 ra rb e(2)
    scan_old_threshold [OF h1 h2 h3, of 1700086400 example_a]
  show ?thesis by blast
qed

theorem scan_old_single_clock_counterexample:
  "scanner_files (snd (scanDirectory example_clock example_dir ''/d'' example_scanner))
     = [example_a, example_b] \<and>
   lastModified example_a = lastModified example_b \<and>
   scanner_oldFileAgeDays example_scanner = 1 \<and>
   scanner_oldFiles (snd (scanDirectory example_clock example_dir ''/d'' example_scanner))
     = [example_b] \<and>
   example_a \<noteq> example_b \<and>
   (example_clock 0 - lastModified example_b) div 86400 = 0"
  by code_simp

section \<open>The mover\<close>

lemma fs_create_directory_world:
  "fs_create_directory w p = Inr w' \<Longrightarrow>
   w' = w \<or> (nodes w p = None \<and> w' = w\<lparr>nodes := (nodes w)(p \<mapsto> Directory)\<rparr>)"
  by (auto simp: fs_create_directory_def split: if_splits option.splits node.splits)

lemma createCategoryDirectories_cong:
  "mover_dryRun a = mover_dryRun b \<Longrightarrow>
   createCategoryDirectories a w base cats = createCategoryDirectories b w base cats"
proof (induction cats arbitrary: w)
  case Nil
  show ?case by simp
next
  case (Cons e cats)
  obtain c fs where e: "e = (c, fs)" by (cases e)
  show ?case
    unfolding e using Cons by (simp add: Let_def split: sum.splits)
qed

lemma createCategoryDirectories_dry:
  "mover_dryRun mv \<Longrightarrow> snd (createCategoryDirectories mv w base cats) = w"
proof (induction cats arbitrary: w)
  case Nil
  show ?case by simp
next
  case (Cons e cats)
  obtain c fs where e: "e = (c, fs)" by (cases e)
  show ?case
    unfolding e using Cons by (simp add: Let_def split: sum.splits)
qed

lemma createCategoryDirectories_dry_ok:
  "mover_dryRun mv \<Longrightarrow> existence_checks_succeed w base cats \<Longrightarrow>
   fst (createCategoryDirectories mv w base cats)"
proof (induction cats arbitrary: w)
  case Nil
  show ?case by simp
next
  case (Cons e cats)
  obtain c fs where e: "e = (c, fs)" by (cases e)
  from Cons.prems(2) have "existence_checks_succeed w base cats"
    by (simp add: existence_checks_succeed_def)
  with Cons.IH Cons.prems(1) have "fst (createCategoryDirectories mv w base cats)" by blast
  with Cons.prems show ?case
    unfolding e by (auto simp: existence_checks_succeed_def fs_exists_def Let_def)
qed

lemma createCategoryDirectories_keeps:
  "(nodes (snd (createCategoryDirectories mv w base cats)) p = Some (File c))
     = (nodes w p = Some (File c)) \<and>
   stat_fails (snd (createCategoryDirectories mv w base cats)) = stat_fails w \<and>
   mkdir_fails (snd (createCategoryDirectories mv w base cats)) = mkdir_fails w \<and>
   rename_fails (snd (createCategoryDirectories mv w base cats)) = rename_fails w \<and>
   local_time (snd (createCategoryDirectories mv w base cats)) = local_time w \<and>
   clock_reads (snd (createCategoryDirectories mv w base cats)) = clock_reads w"
proof (induction cats arbitrary: w)
  case Nil
  show ?case by simp
next
  case (Cons e cats)
  obtain k fs where e: "e = (k, fs)" by (cases e)
  show ?case
  proof (cases "fs = [] \<or> mover_dryRun mv \<or> stat_fails w (base @ ''/'' @ k)
      \<or> nodes w (base @ ''/'' @ k) \<noteq> None")
    case True
    then show ?thesis
      unfolding e using Cons.IH [of w] by (auto simp: fs_exists_def Let_def)
  next
    case False
    show ?thesis
    proof (cases "fs_create_directory w (base @ ''/'' @ k)")
      case (Inl err)
      with False show ?thesis unfolding e by (auto simp: fs_exists_def Let_def)
    next
      case (Inr w')
      from fs_create_directory_world [OF Inr] False
      have w': "w' = w \<or> w' = w\<lparr>nodes := (nodes w)(base @ ''/'' @ k \<mapsto> Directory)\<rparr>"
        and n: "nodes w (base @ ''/'' @ k) = None"
        by auto
      have step: "createCategoryDirectories mv w base (e # cats)
          = createCategoryDirectories mv w' base cats"
        unfolding e using False Inr by (auto simp: fs_exists_def Let_def)
      from w' n have "(nodes w' p = Some (File c)) = (nodes w p = Some (File c))"
        "stat_fails w' = stat_fails w" "mkdir_fails w' = mkdir_fails w"
        "rename_fails w' = rename_fails w" "local_time w' = local_time w"
        "clock_reads w' = clock_reads w"
        by (auto split: if_splits)
      with Cons.IH [of w'] show ?thesis unfolding step by simp
    qed
  qed
qed

lemma moveFile_frame:
  "mover_dryRun (fst (snd (moveFile mv w f d))) = mover_dryRun mv \<and>
   stat_fails (snd (snd (moveFile mv w f d))) = stat_fails w \<and>
   mkdir_fails (snd (snd (moveFile mv w f d))) = mkdir_fails w \<and>
   rename_fails (snd (snd (moveFile mv w f d))) = rename_fails w \<and>
   local_time (snd (snd (moveFile mv w f d))) = local_time w"
  by (auto simp: moveFile_def fs_exists_def handleFileCollision_def fs_rename_def Let_def
      split: option.splits)

lemma moveFile_count:
  "mover_successCount (fst (snd (moveFile mv w f d))) + mover_failCount (fst (snd (moveFile mv w f d)))
     = mover_successCount mv + mover_failCount mv + 1"
  by (auto simp: moveFile_def fs_exists_def handleFileCollision_def fs_rename_def Let_def
      split: option.splits)

lemma moveFile_dry:
  assumes "mover_dryRun mv"
  shows "nodes (snd (snd (moveFile mv w f d))) = nodes w"
    and "\<not> stat_fails w (d @ ''/'' @ name f) \<Longrightarrow>
         mover_successCount (fst (snd (moveFile mv w f d))) = mover_successCount mv + 1 \<and>
         mover_failCount (fst (snd (moveFile mv w f d))) = mover_failCount mv"
  using assms
  by (auto simp: moveFile_def fs_exists_def handleFileCollision_def Let_def)

lemma moveFiles_frame:
  "mover_dryRun (fst (moveFiles mv w d fs)) = mover_dryRun mv \<and>
   stat_fails (snd (moveFiles mv w d fs)) = stat_fails w \<and>
   mkdir_fails (snd (moveFiles mv w d fs)) = mkdir_fails w \<and>
   rename_fails (snd (moveFiles mv w d fs)) = rename_fails w \<and>
   local_time (snd (moveFiles mv w d fs)) = local_time w"
proof (induction fs arbitrary: mv w)
  case Nil
  show ?case by simp
next
  case (Cons f fs)
  obtain ok mv' w' where m: "moveFile mv w f d = (ok, mv', w')" by (cases "moveFile mv w f d")
  from moveFile_frame [of mv w f d] Cons.IH [of mv' w'] show ?case
    by (simp add: m)
qed

lemma moveFiles_count:
  "mover_successCount (fst (moveFiles mv w d fs)) + mover_failCount (fst (moveFiles mv w d fs))
     = mover_successCount mv + mover_failCount mv + int (length fs)"
proof (induction fs arbitrary: mv w)
  case Nil
  show ?case by simp
next
  case (Cons f fs)
  obtain ok mv' w' where m: "moveFile mv w f d = (ok, mv', w')" by (cases "moveFile mv w f d")
  from moveFile_count [of mv w f d] Cons.IH [of mv' w'] show ?case
    by (simp add: m)
qed

lemma moveFiles_dry_nodes:
  "mover_dryRun mv \<Longrightarrow> nodes (snd (moveFiles mv w d fs)) = nodes w"
proof (induction fs arbitrary: mv w)
  case Nil
  show ?case by simp
next
  case (Cons f fs)
  obtain ok mv' w' where m: "moveFile mv w f d = (ok, mv', w')" by (cases "moveFile mv w f d")
  have fr: "mover_dryRun mv'"
    using moveFile_frame [of mv w f d] Cons.prems by (simp add: m)
  from moveFile_dry(1) [OF Cons.prems, of w f d] Cons.IH [OF fr, of w']
  show ?case by (simp add: m)
qed

lemma moveFiles_dry_count:
  "mover_dryRun mv \<Longrightarrow>
   list_all (\<lambda>file. \<not> stat_fails w (d @ ''/'' @ name file)) fs \<Longrightarrow>
   mover_successCount (fst (moveFiles mv w d fs)) = mover_successCount mv + int (length fs) \<and>
   mover_failCount (fst (moveFiles mv w d fs)) = mover_failCount mv"
proof (induction fs arbitrary: mv w)
  case Nil
  show ?case by simp
next
  case (Cons f fs)
  obtain ok mv' w' where m: "moveFile mv w f d = (ok, mv', w')" by (cases "moveFile mv w f d")
  have fr: "mover_dryRun mv'" "stat_fails w' = stat_fails w"
    using moveFile_frame [of mv w f d] Cons.prems(1) by (simp_all add: m)
  from Cons.prems(2) have a: "\<not> stat_fails w (d @ ''/'' @ name f)"
    and b: "list_all (\<lambda>file. \<not> stat_fails w' (d @ ''/'' @ name file)) fs"
    by (simp_all add: fr)
  from moveFile_dry(2) [OF Cons.prems(1) a] Cons.IH [OF fr(1) b]
  show ?case by (simp add: m)
qed

lemma totalFiles_Cons: "totalFiles ((c, fs) # cats) = length fs + totalFiles cats"
  by (simp add: totalFiles_def)

lemma moveCategories_frame:
  "mover_dryRun (fst (moveCategories mv w base cats)) = mover_dryRun mv \<and>
   stat_fails (snd (moveCategories mv w base cats)) = stat_fails w \<and>
   mkdir_fails (snd (moveCategories mv w base cats)) = mkdir_fails w \<and>
   rename_fails (snd (moveCategories mv w base cats)) = rename_fails w \<and>
   local_time (snd (moveCategories mv w base cats)) = local_time w"
proof (induction cats arbitrary: mv w)
  case Nil
  show ?case by simp
next
  case (Cons e cats)
  obtain c fs where e: "e = (c, fs)" by (cases e)
  obtain mv' w' where m: "moveFiles mv w (base @ ''/'' @ c) fs = (mv', w')"
    by (cases "moveFiles mv w (base @ ''/'' @ c) fs")
  from m moveFiles_frame [of mv w "base @ ''/'' @ c" fs] Cons.IH [of mv' w'] Cons.IH [of mv w]
  show ?case
    unfolding e by (simp add: Let_def)
qed

lemma moveCategories_count:
  "mover_successCount (fst (moveCategories mv w base cats))
     + mover_failCount (fst (moveCategories mv w base cats))
     = mover_successCount mv + mover_failCount mv + int (totalFiles cats)"
proof (induction cats arbitrary: mv w)
  case Nil
  show ?case by (simp add: totalFiles_def)
next
  case (Cons e cats)
  obtain c fs where e: "e = (c, fs)" by (cases e)
  obtain mv' w' where m: "moveFiles mv w (base @ ''/'' @ c) fs = (mv', w')"
    by (cases "moveFiles mv w (base @ ''/'' @ c) fs")
  from m moveFiles_count [of mv w "base @ ''/'' @ c" fs] Cons.IH [of mv' w'] Cons.IH [of mv w]
  show ?case
    unfolding e by (simp add: Let_def totalFiles_Cons)
qed

lemma existence_checks_succeed_cong:
  "stat_fails w' = stat_fails w \<Longrightarrow>
   existence_checks_succeed w' base cats = existence_checks_succeed w base cats"
  by (simp add: existence_checks_succeed_def)

lemma moveCategories_dry_nodes:
  "mover_dryRun mv \<Longrightarrow> nodes (snd (moveCategories mv w base cats)) = nodes w"
proof (induction cats arbitrary: mv w)
  case Nil
  show ?case by simp
next
  case (Cons e cats)
  obtain c fs where e: "e = (c, fs)" by (cases e)
  obtain mv' w' where m: "moveFiles mv w (base @ ''/'' @ c) fs = (mv', w')"
    by (cases "moveFiles mv w (base @ ''/'' @ c) fs")
  have fr: "mover_dryRun mv'"
    using m moveFiles_frame [of mv w "base @ ''/'' @ c" fs] Cons.prems by simp
  from m moveFiles_dry_nodes [OF Cons.prems, of w "base @ ''/'' @ c" fs]
    Cons.IH [OF fr, of w'] Cons.IH [OF Cons.prems, of w]
  show ?case unfolding e by (simp add: Let_def)
qed

lemma moveCategories_dry_count:
  "mover_dryRun mv \<Longrightarrow> existence_checks_succeed w base cats \<Longrightarrow>
   mover_successCount (fst (moveCategories mv w base cats))
     = mover_successCount mv + int (totalFiles cats) \<and>
   mover_failCount (fst (moveCategories mv w base cats)) = mover_failCount mv"
proof (induction cats arbitrary: mv w)
  case Nil
  show ?case by (simp add: totalFiles_def)
next
  case (Cons e cats)
  obtain c fs where e: "e = (c, fs)" by (cases e)
  obtain mv' w' where m: "moveFiles mv w (base @ ''/'' @ c) fs = (mv', w')"
    by (cases "moveFiles mv w (base @ ''/'' @ c) fs")
  have fr: "mover_dryRun mv'" "stat_fails w' = stat_fails w"
    using m moveFiles_frame [of mv w "base @ ''/'' @ c" fs] Cons.prems(1) by simp_all
  from Cons.prems(2) have rest: "existence_checks_succeed w base cats"
    and here: "fs \<noteq> [] \<Longrightarrow>
      list_all (\<lambda>file. \<not> stat_fails w ((base @ ''/'' @ c) @ ''/'' @ name file)) fs"
    by (auto simp: existence_checks_succeed_def e)
  from rest have rest': "existence_checks_succeed w' base cats"
    by (simp add: existence_checks_succeed_cong [OF fr(2)])
  show ?case
  proof (cases "fs = []")
    case True
    with Cons.IH [OF Cons.prems(1) rest] show ?thesis
      unfolding e by (simp add: totalFiles_Cons)
  next
    case False
    from moveFiles_dry_count [OF Cons.prems(1) here [OF False]] m
    have "mover_successCount mv' = mover_successCount mv + int (length fs)"
      "mover_failCount mv' = mover_failCount mv"
      by simp_all
    with m Cons.IH [OF fr(1) rest'] False show ?thesis
      unfolding e by (simp add: Let_def totalFiles_Cons)
  qed
qed

lemma organizeFiles_phase_failure:
  assumes "\<not> fst (createCategoryDirectories mv w base cats)"
  shows "organizeFiles mv w base cats
     = (False, resetCounters mv, snd (createCategoryDirectories mv w base cats))"
proof -
  have "createCategoryDirectories (resetCounters mv) w base cats
      = createCategoryDirectories mv w base cats"
    by (rule createCategoryDirectories_cong) (simp add: resetCounters_def)
  with assms show ?thesis
    by (cases "createCategoryDirectories mv w base cats")
      (simp add: organizeFiles_def resetCounters_def Let_def)
qed

lemma organizeFiles_phase_success:
  assumes "fst (createCategoryDirectories mv w base cats)"
  shows "organizeFiles mv w base cats
     = (True, moveCategories (resetCounters mv)
                (snd (createCategoryDirectories mv w base cats)) base cats)"
proof -
  have "createCategoryDirectories (resetCounters mv) w base cats
      = createCategoryDirectories mv w base cats"
    by (rule createCategoryDirectories_cong) (simp add: resetCounters_def)
  with assms show ?thesis
    by (cases "createCategoryDirectories mv w base cats")
      (simp add: organizeFiles_def resetCounters_def Let_def split: prod.splits)
qed

lemma mkdir_failure_fails_phase:
  assumes "\<not> mover_dryRun mv"
  shows "(c, fs) \<in> set cats \<Longrightarrow> fs \<noteq> [] \<Longrightarrow> nodes w (base @ ''/'' @ c) = None \<Longrightarrow>
     mkdir_fails w (base @ ''/'' @ c) \<Longrightarrow> \<not> fst (createCategoryDirectories mv w base cats)"
proof (induction cats arbitrary: w)
  case Nil
  then show ?case by simp
next
  case (Cons e cats)
  obtain k gs where e: "e = (k, gs)" by (cases e)
  show ?case
  proof (cases "k = c \<and> gs \<noteq> []")
    case True
    with Cons.prems assms show ?thesis
      unfolding e by (simp add: Let_def fs_exists_def fs_create_directory_def)
  next
    case False
    with Cons.prems(1,2) e have mem: "(c, fs) \<in> set cats" by auto
    show ?thesis
    proof (cases "gs = []")
      case True
      with Cons.IH [OF mem Cons.prems(2,3,4)] show ?thesis unfolding e by simp
    next
      case ne: False
      with False have kc: "k \<noteq> c" by simp
      show ?thesis
      proof (cases "stat_fails w (base @ ''/'' @ k)")
        case True
        with ne show ?thesis unfolding e by (simp add: Let_def fs_exists_def)
      next
        case sf: False
        show ?thesis
        proof (cases "nodes w (base @ ''/'' @ k) = None")
          case False
          with ne sf assms Cons.IH [OF mem Cons.prems(2,3,4)] show ?thesis
            unfolding e by (auto simp: Let_def fs_exists_def)
        next
          case True
          show ?thesis
          proof (cases "fs_create_directory w (base @ ''/'' @ k)")
            case (Inl err)
            with ne sf assms True show ?thesis
              unfolding e by (auto simp: Let_def fs_exists_def)
          next
            case (Inr w')
            from fs_create_directory_world [OF Inr]
            have "nodes w' (base @ ''/'' @ c) = None" "mkdir_fails w' (base @ ''/'' @ c)"
              using Cons.prems(3,4) kc by auto
            from Cons.IH [OF mem Cons.prems(2) this] ne sf assms True Inr show ?thesis
              unfolding e by (auto simp: Let_def fs_exists_def)
          qed
        qed
      qed
    qed
  qed
qed

text \<open>
  Claim C1, as amended. For every classification and base directory, \<^verbatim>\<open>organizeFiles\<close>
  in dry-run mode leaves the file system as it was: no file is moved and no directory is
  created. When none of the existence checks it makes (on the directory of each category
  that has files, and on the destination path of each file) throws, it returns true and
  the success counter afterwards equals the number of files in the classification.
\<close>

theorem organizeFiles_dry_run:
  assumes "mover_dryRun mv"
  shows "nodes (snd (snd (organizeFiles mv w base cats))) = nodes w \<and>
     (existence_checks_succeed w base cats \<longrightarrow>
        fst (organizeFiles mv w base cats) \<and>
        mover_successCount (fst (snd (organizeFiles mv w base cats))) = int (totalFiles cats) \<and>
        mover_failCount (fst (snd (organizeFiles mv w base cats))) = 0)"
proof -
  have dry: "mover_dryRun (resetCounters mv)"
    using assms by (simp add: resetCounters_def)
  have zero: "mover_successCount (resetCounters mv) = 0" "mover_failCount (resetCounters mv) = 0"
    by (simp_all add: resetCounters_def)
  have same: "snd (createCategoryDirectories mv w base cats) = w"
    by (rule createCategoryDirectories_dry [OF assms])
  show ?thesis
  proof (cases "fst (createCategoryDirectories mv w base cats)")
    case True
    have r: "organizeFiles mv w base cats = (True, moveCategories (resetCounters mv) w base cats)"
      using organizeFiles_phase_success [OF True] by (simp add: same)
    have "nodes (snd (moveCategories (resetCounters mv) w base cats)) = nodes w"
      by (rule moveCategories_dry_nodes [OF dry])
    moreover have "existence_checks_succeed w base cats \<Longrightarrow>
        mover_successCount (fst (moveCategories (resetCounters mv) w base cats))
          = int (totalFiles cats) \<and>
        mover_failCount (fst (moveCategories (resetCounters mv) w base cats)) = 0"
      using moveCategories_dry_count [OF dry, of w base cats] by (simp add: zero)
    ultimately show ?thesis
      unfolding r by simp
  next
    case False
    have r: "organizeFiles mv w base cats = (False, resetCounters mv, w)"
      using organizeFiles_phase_failure [OF False] by (simp add: same)
    have "\<not> existence_checks_succeed w base cats"
      using createCategoryDirectories_dry_ok [OF assms, of w base cats] False by blast
    then show ?thesis
      unfolding r by simp
  qed
qed

theorem organizeFiles_dry_run_witness:
  "mover_dryRun (newFileMover True) \<and>
   existence_checks_succeed healthy_world ''/d'' (classifyFiles [report_pdf, photo_jpg]) \<and>
   nodes (snd (snd (organizeFiles (newFileMover True) healthy_world ''/d''
            (classifyFiles [report_pdf, photo_jpg])))) = nodes healthy_world \<and>
   fst (organizeFiles (newFileMover True) healthy_world ''/d''
          (classifyFiles [report_pdf, photo_jpg])) \<and>
   mover_successCount (fst (snd (organizeFiles (newFileMover True) healthy_world ''/d''
          (classifyFiles [report_pdf, photo_jpg]))))
     = int (totalFiles (classifyFiles [report_pdf, photo_jpg])) \<and>
   totalFiles (classifyFiles [report_pdf, photo_jpg]) = 2"
proof -
  have h1: "mover_dryRun (newFileMover True)" by code_simp
  have h2: "existence_checks_succeed healthy_world ''/d''
      (classifyFiles [report_pdf, photo_jpg])"
    by code_simp
  have t: "totalFiles (classifyFiles [report_pdf, photo_jpg]) = 2" by code_simp
  from h1 h2 t
    organizeFiles_dry_run [OF h1, of healthy_world "''/d''"
      "classifyFiles [report_pdf, photo_jpg]"]
  show ?thesis by blast
qed

theorem organizeFiles_dry_run_counterexample:
  "mover_dryRun (newFileMover True) \<and>
   totalFiles (classifyFiles [report_pdf, photo_jpg]) = 2 \<and>
   fst (organizeFiles (newFileMover True) locked_documents_world ''/d''
          (classifyFiles [report_pdf, photo_jpg])) \<and>
   mover_successCount (fst (snd (organizeFiles (newFileMover True) locked_documents_world
          ''/d'' (classifyFiles [report_pdf, photo_jpg])))) = 1 \<and>
   mover_failCount (fst (snd (organizeFiles (newFileMover True) locked_documents_world
          ''/d'' (classifyFiles [report_pdf, photo_jpg])))) = 1"
  by code_simp

text \<open>
  Claim C6. In real mode, if the directory of a category that has files does not exist
  and cannot be created, \<^verbatim>\<open>organizeFiles\<close> returns false, the three counters are
  zero, the file system is in the state the directory phase left it in, and every file
  is where it was: no move was attempted.
\<close>

theorem organizeFiles_directory_failure:
  assumes "\<not> mover_dryRun mv"
    and "(category, files) \<in> set cats" and "files \<noteq> []"
    and "nodes w (base @ ''/'' @ category) = None"
    and "mkdir_fails w (base @ ''/'' @ category)"
  shows "\<not> fst (organizeFiles mv w base cats) \<and>
     mover_successCount (fst (snd (organizeFiles mv w base cats))) = 0 \<and>
     mover_failCount (fst (snd (organizeFiles mv w base cats))) = 0 \<and>
     mover_warningCount (fst (snd (organizeFiles mv w base cats))) = 0 \<and>
     snd (snd (organizeFiles mv w base cats)) = snd (createCategoryDirectories mv w base cats) \<and>
     (nodes (snd (snd (organizeFiles mv w base cats))) p = Some (File x))
        = (nodes w p = Some (File x))"
proof -
  have "\<not> fst (createCategoryDirectories mv w base cats)"
    by (rule mkdir_failure_fails_phase [OF assms])
  from organizeFiles_phase_failure [OF this]
  have r: "organizeFiles mv w base cats
     = (False, resetCounters mv, snd (createCategoryDirectories mv w base cats))" .
  show ?thesis
    unfolding r using createCategoryDirectories_keeps [of mv w base cats p x]
    by (simp add: resetCounters_def)
qed

theorem organizeFiles_directory_failure_witness:
  "\<not> mover_dryRun (newFileMover False) \<and>
   (CATEGORY_IMAGES, [photo_jpg]) \<in> set (classifyFiles [report_pdf, photo_jpg]) \<and>
   [photo_jpg] \<noteq> [] \<and>
   nodes no_images_world (''/d'' @ ''/'' @ CATEGORY_IMAGES) = None \<and>
   mkdir_fails no_images_world (''/d'' @ ''/'' @ CATEGORY_IMAGES) \<and>
   \<not> fst (organizeFiles (newFileMover False) no_images_world ''/d''
            (classifyFiles [report_pdf, photo_jpg])) \<and>
   mover_successCount (fst (snd (organizeFiles (newFileMover False) no_images_world
       ''/d'' (classifyFiles [report_pdf, photo_jpg])))) = 0 \<and>
   mover_failCount (fst (snd (organizeFiles (newFileMover False) no_images_world
       ''/d'' (classifyFiles [report_pdf, photo_jpg])))) = 0 \<and>
   (nodes (snd (snd (organizeFiles (newFileMover False) no_images_world ''/d''
       (classifyFiles [report_pdf, photo_jpg])))) ''/d/report.pdf'' = Some (File 1))
     = (nodes no_images_world ''/d/report.pdf'' = Some (File 1)) \<and>
   nodes no_images_world ''/d/report.pdf'' = Some (File 1)"
proof -
  have h1: "\<not> mover_dryRun (newFileMover False)" by code_simp
  have h2: "(CATEGORY_IMAGES, [photo_jpg]) \<in> set (classifyFiles [report_pdf, photo_jpg])"
    by code_simp
  have h3: "[photo_jpg] \<noteq> []" by simp
  have h4: "nodes no_images_world (''/d'' @ ''/'' @ CATEGORY_IMAGES) = None"
    by code_simp
  have h5: "mkdir_fails no_images_world (''/d'' @ ''/'' @ CATEGORY_IMAGES)"
    by code_simp
  have e: "nodes no_images_world ''/d/report.pdf'' = Some (File 1)"
    by code_simp
  from h1 h2 h3 h4 h5 e
    organizeFiles_directory_failure [OF h1 h2 h3 h4 h5, of "''/d/report.pdf''" 1]
  show ?thesis by blast
qed

lemma moveAll_append:
  "moveAll mv w (xs @ ys) = (case moveAll mv w xs of (mv', w') \<Rightarrow> moveAll mv' w' ys)"
  by (induction xs arbitrary: mv w) (auto split: prod.splits)

lemma moveFiles_moveAll:
  "moveFiles mv w d fs = moveAll mv w (map (\<lambda>file. (d, file)) fs)"
  by (induction fs arbitrary: mv w) (auto split: prod.splits)

lemma batch_Cons:
  "batch base ((c, fs) # cats) = map (\<lambda>file. (base @ ''/'' @ c, file)) fs @ batch base cats"
  by (simp add: batch_def)

lemma moveCategories_moveAll:
  "moveCategories mv w base cats = moveAll mv w (batch base cats)"
proof (induction cats arbitrary: mv w)
  case Nil
  show ?case by (simp add: batch_def)
next
  case (Cons e cats)
  obtain c fs where e: "e = (c, fs)" by (cases e)
  show ?case
    unfolding e batch_Cons moveAll_append
    using Cons.IH by (cases "fs = []") (simp_all add: Let_def moveFiles_moveAll)
qed

lemma moveFile_outcome:
  "fst (moveFile mv w f d) = (\<not> move_fails mv w f d) \<and>
   mover_failCount (fst (snd (moveFile mv w f d)))
     = mover_failCount mv + (if move_fails mv w f d then 1 else 0) \<and>
   mover_successCount (fst (snd (moveFile mv w f d)))
     = mover_successCount mv + (if move_fails mv w f d then 0 else 1)"
  by (auto simp: moveFile_def move_fails_def moveTarget_def fs_exists_def fs_rename_def
      handleFileCollision_def Let_def split: option.splits)

lemma moveAll_failCount:
  "mover_failCount (fst (moveAll mv w items)) = mover_failCount mv + int (failedMoves mv w items) \<and>
   mover_successCount (fst (moveAll mv w items))
     = mover_successCount mv + int (length items) - int (failedMoves mv w items)"
proof (induction items arbitrary: mv w)
  case Nil
  show ?case by simp
next
  case (Cons it items)
  obtain d f where it: "it = (d, f)" by (cases it)
  obtain ok mv' w' where m: "moveFile mv w f d = (ok, mv', w')" by (cases "moveFile mv w f d")
  from moveFile_outcome [of mv w f d] Cons.IH [of mv' w'] show ?case
    by (simp add: it m)
qed

lemma length_batch: "length (batch base cats) = totalFiles cats"
  by (induction cats) (auto simp: batch_def totalFiles_def)

text \<open>
  Claim C9. The value \<^verbatim>\<open>organizeFiles\<close> returns is the value of the directory
  phase. When that phase succeeds the result is true however many moves fail: the fail
  counter is then the number of moves whose existence check or rename failed, and the
  success counter the number of the other files. When it fails no file is counted. For a
  single file, \<^verbatim>\<open>moveFile\<close> returns false exactly when its existence check or its
  rename fails; it then adds one to the fail counter, and otherwise one to the success
  counter.
\<close>

theorem organizeFiles_result_is_directory_phase:
  "fst (organizeFiles mv w base cats) = fst (createCategoryDirectories mv w base cats) \<and>
   (if fst (createCategoryDirectories mv w base cats)
    then mover_failCount (fst (snd (organizeFiles mv w base cats)))
           = int (failedMoves (resetCounters mv)
                   (snd (createCategoryDirectories mv w base cats)) (batch base cats)) \<and>
         mover_successCount (fst (snd (organizeFiles mv w base cats)))
           = int (totalFiles cats)
             - int (failedMoves (resetCounters mv)
                     (snd (createCategoryDirectories mv w base cats)) (batch base cats))
    else mover_failCount (fst (snd (organizeFiles mv w base cats))) = 0 \<and>
         mover_successCount (fst (snd (organizeFiles mv w base cats))) = 0) \<and>
   fst (moveFile mv w f d) = (\<not> move_fails mv w f d) \<and>
   mover_failCount (fst (snd (moveFile mv w f d)))
     = mover_failCount mv + (if move_fails mv w f d then 1 else 0) \<and>
   mover_successCount (fst (snd (moveFile mv w f d)))
     = mover_successCount mv + (if move_fails mv w f d then 0 else 1)"
proof -
  have run: "fst (organizeFiles mv w base cats) = fst (createCategoryDirectories mv w base cats) \<and>
   (if fst (createCategoryDirectories mv w base cats)
    then mover_failCount (fst (snd (organizeFiles mv w base cats)))
           = int (failedMoves (resetCounters mv)
                   (snd (createCategoryDirectories mv w base cats)) (batch base cats)) \<and>
         mover_successCount (fst (snd (organizeFiles mv w base cats)))
           = int (totalFiles cats)
             - int (failedMoves (resetCounters mv)
                     (snd (createCategoryDirectories mv w base cats)) (batch base cats))
    else mover_failCount (fst (snd (organizeFiles mv w base cats))) = 0 \<and>
         mover_successCount (fst (snd (organizeFiles mv w base cats))) = 0)"
  proof (cases "fst (createCategoryDirectories mv w base cats)")
    case True
    from organizeFiles_phase_success [OF True]
      moveAll_failCount [of "resetCounters mv" "snd (createCategoryDirectories mv w base cats)"
        "batch base cats"]
    show ?thesis
      using True by (simp add: moveCategories_moveAll length_batch resetCounters_def)
  next
    case False
    from organizeFiles_phase_failure [OF False] show ?thesis
      using False by (simp add: resetCounters_def)
  qed
  from run moveFile_outcome [of mv w f d] show ?thesis by blast
qed

theorem organizeFiles_result_is_directory_phase_witness:
  "fst (createCategoryDirectories (newFileMover False) vanished_report_world ''/d''
          (classifyFiles [report_pdf, photo_jpg])) \<and>
   nodes vanished_report_world (path report_pdf) = None \<and>
   move_fails (newFileMover False) vanished_report_world report_pdf ''/d/Documents'' \<and>
   \<not> fst (moveFile (newFileMover False) vanished_report_world report_pdf ''/d/Documents'') \<and>
   mover_failCount (fst (snd (moveFile (newFileMover False) vanished_report_world report_pdf
       ''/d/Documents''))) = 1 \<and>
   fst (organizeFiles (newFileMover False) vanished_report_world ''/d''
          (classifyFiles [report_pdf, photo_jpg])) \<and>
   mover_failCount (fst (snd (organizeFiles (newFileMover False) vanished_report_world
       ''/d'' (classifyFiles [report_pdf, photo_jpg])))) = 1 \<and>
   mover_successCount (fst (snd (organizeFiles (newFileMover False) vanished_report_world
       ''/d'' (classifyFiles [report_pdf, photo_jpg])))) = 1"
proof -
  have ph: "fst (createCategoryDirectories (newFileMover False) vanished_report_world ''/d''
          (classifyFiles [report_pdf, photo_jpg]))"
    by code_simp
  have gone: "nodes vanished_report_world (path report_pdf) = None"
    by code_simp
  have mf: "move_fails (newFileMover False) vanished_report_world report_pdf ''/d/Documents''"
    by code_simp
  have fm: "failedMoves (resetCounters (newFileMover False))
      (snd (createCategoryDirectories (newFileMover False) vanished_report_world ''/d''
             (classifyFiles [report_pdf, photo_jpg])))
      (batch ''/d'' (classifyFiles [report_pdf, photo_jpg])) = 1"
    by code_simp
  have tf: "totalFiles (classifyFiles [report_pdf, photo_jpg]) = 2"
    by code_simp
  have z: "mover_failCount (newFileMover False) = 0"
    by code_simp
  note inst = organizeFiles_result_is_directory_phase
    [of "newFileMover False" vanished_report_world "''/d''"
        "classifyFiles [report_pdf, photo_jpg]" report_pdf "''/d/Documents''"]
  from inst ph mf fm tf z gone show ?thesis
    by simp
qed

section \<open>Name collisions\<close>

lemma is_digit_digit_char: "d < 10 \<Longrightarrow> is_digit (digit_char d)"
proof -
  assume "d < 10"
  then have "d \<in> {0, 1, 2, 3, 4, 5, 6, 7, 8, 9}" by auto
  then show ?thesis
    by (auto simp: is_digit_def digit_char_def)
qed

lemma decimal_digits: "list_all is_digit (decimal n)"
proof (induction n rule: decimal.induct)
  case (1 n)
  show ?case
  proof (cases "n < 10")
    case True
    then show ?thesis
      by (subst decimal.simps) (simp add: is_digit_digit_char)
  next
    case False
    with 1 show ?thesis
      by (subst decimal.simps) (simp add: is_digit_digit_char)
  qed
qed

lemma decimal_length1: "n < 10 \<Longrightarrow> length (decimal n) = 1"
  by (subst decimal.simps) simp

lemma decimal_length2: "10 \<le> n \<Longrightarrow> n < 100 \<Longrightarrow> length (decimal n) = 2"
  by (subst decimal.simps) (simp add: decimal_length1)

lemma decimal_length3: "100 \<le> n \<Longrightarrow> n < 1000 \<Longrightarrow> length (decimal n) = 3"
  by (subst decimal.simps) (simp add: decimal_length2)

lemma decimal_length4: "1000 \<le> n \<Longrightarrow> n < 10000 \<Longrightarrow> length (decimal n) = 4"
  by (subst decimal.simps) (simp add: decimal_length3)

lemma two_digits: "n < 100 \<Longrightarrow> length (two_digits n) = 2 \<and> list_all is_digit (two_digits n)"
  by (cases "n < 10")
    (auto simp: two_digits_def decimal_length1 decimal_length2 decimal_digits is_digit_def)

lemma put_time_chars: "c \<in> set (put_time t) \<Longrightarrow> is_digit c \<or> c = CHR ''_''"
proof -
  have d: "\<And>n. \<forall>c \<in> set (decimal n). is_digit c"
    using decimal_digits by (simp add: list_all_iff)
  have t: "\<And>n. \<forall>c \<in> set (two_digits n). is_digit c"
    using d by (auto simp: two_digits_def is_digit_def)
  assume "c \<in> set (put_time t)"
  then show ?thesis
    using d t by (auto simp: put_time_def)
qed

lemma put_time_no_separator: "CHR ''/'' \<notin> set (put_time t)"
  using put_time_chars [of "CHR ''/''" t] by (auto simp: is_digit_def)

lemma put_time_shaped:
  assumes "tm_in_range t"
  shows "timestamp_shaped (put_time t)"
proof -
  define y where "y = decimal (tm_year t + 1900)"
  define mo where "mo = two_digits (tm_mon t + 1)"
  define da where "da = two_digits (tm_mday t)"
  define ho where "ho = two_digits (tm_hour t)"
  define mi where "mi = two_digits (tm_min t)"
  define se where "se = two_digits (tm_sec t)"
  from assms have ly: "length y = 4"
    unfolding y_def by (intro decimal_length4) (simp_all add: tm_in_range_def)
  have dy: "list_all is_digit y" by (simp add: y_def decimal_digits)
  from assms have
    mo: "length mo = 2 \<and> list_all is_digit mo" and
    da: "length da = 2 \<and> list_all is_digit da" and
    ho: "length ho = 2 \<and> list_all is_digit ho" and
    mi: "length mi = 2 \<and> list_all is_digit mi" and
    se: "length se = 2 \<and> list_all is_digit se"
    unfolding mo_def da_def ho_def mi_def se_def
    by (simp_all add: two_digits tm_in_range_def)
  define a where "a = y @ mo @ da"
  define b where "b = ho @ mi @ se"
  have p: "put_time t = a @ CHR ''_'' # b"
    by (simp add: put_time_def y_def mo_def da_def ho_def mi_def se_def a_def b_def)
  have l8: "length a = 8" using ly mo da by (simp add: a_def)
  have l6: "length b = 6" using ho mi se by (simp add: b_def)
  have da': "list_all is_digit a" using dy mo da by (simp add: a_def)
  have db': "list_all is_digit b" using ho mi se by (simp add: b_def)
  have "length (put_time t) = 15" unfolding p using l8 l6 by simp
  moreover have "put_time t ! 8 = CHR ''_''"
    unfolding p using nth_append_length [of a "CHR ''_''" b] by (simp only: l8)
  moreover have "take 8 (put_time t) = a"
    unfolding p using l8 by simp
  moreover have "drop 9 (put_time t) = b"
    unfolding p using l8 by simp
  ultimately show ?thesis
    using da' db' by (simp add: timestamp_shaped_def)
qed

lemma filename_extension_suffix: "\<exists>pre. fn = pre @ filename_extension fn"
proof (cases "filename_extension fn = []")
  case True
  then show ?thesis by simp
next
  case False
  define P where "P = (\<lambda>c. c \<noteq> CHR ''.'')"
  from False have dot: "CHR ''.'' \<in> set fn"
    and ext: "filename_extension fn = CHR ''.'' # rev (takeWhile P (rev fn))"
    by (auto simp: filename_extension_def Let_def P_def split: if_splits)
  from dot have "dropWhile P (rev fn) \<noteq> []"
    by (auto simp: P_def)
  then obtain c cs where dw: "dropWhile P (rev fn) = c # cs"
    by (cases "dropWhile P (rev fn)") auto
  then have "\<not> P c" using hd_dropWhile [of P "rev fn"] by auto
  then have c: "c = CHR ''.''" by (simp add: P_def)
  have "rev fn = takeWhile P (rev fn) @ dropWhile P (rev fn)" by simp
  then have "rev fn = takeWhile P (rev fn) @ CHR ''.'' # cs" using dw c by simp
  then have "fn = rev (takeWhile P (rev fn) @ CHR ''.'' # cs)" by (metis rev_rev_ident)
  then have "fn = rev cs @ filename_extension fn" by (simp add: ext)
  then show ?thesis by blast
qed

lemma path_stem_extension: "path_stem p @ path_extension p = path_filename p"
proof -
  obtain pre where pre: "path_filename p = pre @ filename_extension (path_filename p)"
    using filename_extension_suffix by blast
  define e where "e = filename_extension (path_filename p)"
  from pre have fn: "path_filename p = pre @ e" by (simp add: e_def)
  have "path_stem p = take (length (path_filename p) - length e) (path_filename p)"
    by (simp add: path_stem_def Let_def e_def)
  then have "path_stem p = pre"
    unfolding fn by simp
  moreover have "path_extension p = e"
    by (simp add: path_extension_def e_def)
  ultimately show ?thesis
    by (simp add: fn)
qed

lemma path_filename_no_separator: "CHR ''/'' \<notin> set (path_filename p)"
proof -
  have "\<forall>c \<in> set (takeWhile (\<lambda>c. c \<noteq> CHR ''/'') (rev p)). c \<noteq> CHR ''/''"
    using set_takeWhileD by fastforce
  then show ?thesis by (auto simp: path_filename_def)
qed

lemma path_filename_id: "CHR ''/'' \<notin> set p \<Longrightarrow> path_filename p = p"
proof -
  assume "CHR ''/'' \<notin> set p"
  then have t: "takeWhile (\<lambda>c. c \<noteq> CHR ''/'') (rev p) = rev p"
    by auto
  show ?thesis unfolding path_filename_def t by simp
qed

lemma collision_name_differs:
  "path_stem n @ ''_'' @ put_time t @ path_extension n \<noteq> n"
proof
  assume eq: "path_stem n @ ''_'' @ put_time t @ path_extension n = n"
  have fn: "path_stem n @ path_extension n = path_filename n"
    by (rule path_stem_extension)
  have "CHR ''/'' \<notin> set (path_stem n)" "CHR ''/'' \<notin> set (path_extension n)"
    using path_filename_no_separator [of n] unfolding fn [symmetric] by auto
  then have "CHR ''/'' \<notin> set (path_stem n @ ''_'' @ put_time t @ path_extension n)"
    using put_time_no_separator [of t] by auto
  then have "CHR ''/'' \<notin> set n" unfolding eq .
  then have "path_filename n = n" by (rule path_filename_id)
  with fn have "length (path_stem n @ path_extension n) = length n"
    by simp
  moreover from eq have
    "length (path_stem n @ ''_'' @ put_time t @ path_extension n) = length n"
    by simp
  ultimately show False by simp
qed

lemma moveFile_fresh:
  assumes "\<not> mover_dryRun mv"
    and "\<not> stat_fails w (d @ ''/'' @ name f)"
    and "nodes w (d @ ''/'' @ name f) = None"
    and "\<not> rename_fails w (path f) (d @ ''/'' @ name f)"
    and "nodes w (path f) = Some n"
  shows "moveFile mv w f d =
     (True, mv\<lparr>mover_successCount := mover_successCount mv + 1\<rparr>,
      w\<lparr>nodes := ((nodes w)(path f := None))(d @ ''/'' @ name f \<mapsto> n)\<rparr>)"
  using assms by (simp add: moveFile_def fs_exists_def fs_rename_def Let_def)

lemma moveFile_collision:
  assumes "\<not> mover_dryRun mv"
    and "\<not> stat_fails w (d @ ''/'' @ name f)"
    and "nodes w (d @ ''/'' @ name f) = Some m"
    and "nodes w (path f) = Some n"
  shows "moveFile mv w f d =
     (if rename_fails w (path f) (fst (handleFileCollision w d (name f)))
      then (False, mv\<lparr>mover_warningCount := mover_warningCount mv + 1,
                      mover_failCount := mover_failCount mv + 1\<rparr>,
            w\<lparr>clock_reads := Suc (clock_reads w)\<rparr>)
      else (True, mv\<lparr>mover_warningCount := mover_warningCount mv + 1,
                     mover_successCount := mover_successCount mv + 1\<rparr>,
            w\<lparr>clock_reads := Suc (clock_reads w),
              nodes := ((nodes w)(path f := None))(fst (handleFileCollision w d (name f)) \<mapsto> n)\<rparr>))"
  using assms
  by (simp add: moveFile_def fs_exists_def fs_rename_def handleFileCollision_def Let_def)

lemma handleFileCollision_path:
  "fst (handleFileCollision w d n)
     = d @ ''/'' @ path_stem n @ ''_'' @ put_time (local_time w (clock_reads w)) @ path_extension n"
  by (simp add: handleFileCollision_def Let_def)

lemma collision_path_differs: "fst (handleFileCollision w d n) \<noteq> d @ ''/'' @ n"
  using collision_name_differs [of n "local_time w (clock_reads w)"]
  by (simp add: handleFileCollision_path)

lemma quiet_step:
  assumes "\<not> mover_dryRun mv" and "nodes w (d @ ''/'' @ name f) = None"
  shows "mover_warningCount (fst (snd (moveFile mv w f d))) = mover_warningCount mv \<and>
     \<not> mover_dryRun (fst (snd (moveFile mv w f d))) \<and>
     clock_reads (snd (snd (moveFile mv w f d))) = clock_reads w \<and>
     stat_fails (snd (snd (moveFile mv w f d))) = stat_fails w \<and>
     rename_fails (snd (snd (moveFile mv w f d))) = rename_fails w \<and>
     local_time (snd (snd (moveFile mv w f d))) = local_time w \<and>
     (nodes (snd (snd (moveFile mv w f d))) = nodes w \<or>
      (\<exists>n. nodes w (path f) = Some n \<and>
           nodes (snd (snd (moveFile mv w f d)))
             = ((nodes w)(path f := None))(d @ ''/'' @ name f \<mapsto> n)))"
  using assms
  by (auto simp: moveFile_def fs_exists_def fs_rename_def Let_def split: option.splits)

lemma quiet_step_success:
  assumes "\<not> mover_dryRun mv" and "nodes w (d @ ''/'' @ name f) = None"
    and "nodes w (path f) \<noteq> None" and "\<not> stat_fails w (d @ ''/'' @ name f)"
    and "\<not> rename_fails w (path f) (d @ ''/'' @ name f)"
  shows "mover_successCount (fst (snd (moveFile mv w f d))) = mover_successCount mv + 1 \<and>
     mover_failCount (fst (snd (moveFile mv w f d))) = mover_failCount mv"
  using assms
  by (auto simp: moveFile_def fs_exists_def fs_rename_def Let_def split: option.splits)

lemma quiet_segment:
  assumes "\<not> mover_dryRun mv"
    and "\<forall>it \<in> set L. nodes w (item_target it) = None"
    and "distinct (map item_target L)"
  shows "mover_warningCount (fst (moveAll mv w L)) = mover_warningCount mv \<and>
     \<not> mover_dryRun (fst (moveAll mv w L)) \<and>
     clock_reads (snd (moveAll mv w L)) = clock_reads w \<and>
     stat_fails (snd (moveAll mv w L)) = stat_fails w \<and>
     rename_fails (snd (moveAll mv w L)) = rename_fails w \<and>
     local_time (snd (moveAll mv w L)) = local_time w \<and>
     (\<forall>p. p \<notin> item_target ` set L \<longrightarrow>
        (nodes w p = None \<longrightarrow> nodes (snd (moveAll mv w L)) p = None) \<and>
        (p \<notin> item_source ` set L \<longrightarrow> nodes (snd (moveAll mv w L)) p = nodes w p))"
  using assms
proof (induction L arbitrary: mv w)
  case Nil
  then show ?case by simp
next
  case (Cons it L)
  obtain d f where it: "it = (d, f)" by (cases it)
  obtain ok mv1 w1 where m: "moveFile mv w f d = (ok, mv1, w1)" by (cases "moveFile mv w f d")
  have t: "item_target it = d @ ''/'' @ name f" and s: "item_source it = path f"
    by (simp_all add: it item_target_def item_source_def)
  have free: "nodes w (d @ ''/'' @ name f) = None"
    unfolding t [symmetric] using Cons.prems(2) by simp
  from quiet_step [OF Cons.prems(1) free] m have
    q: "mover_warningCount mv1 = mover_warningCount mv" "\<not> mover_dryRun mv1"
       "clock_reads w1 = clock_reads w" "stat_fails w1 = stat_fails w"
       "rename_fails w1 = rename_fails w" "local_time w1 = local_time w"
    and n: "nodes w1 = nodes w \<or>
      (\<exists>n. nodes w (path f) = Some n \<and>
           nodes w1 = ((nodes w)(path f := None))(item_target it \<mapsto> n))"
    unfolding t by simp_all
  have keepNone: "\<And>p. p \<noteq> item_target it \<Longrightarrow> nodes w p = None \<Longrightarrow> nodes w1 p = None"
    using n by auto
  have keep: "\<And>p. p \<noteq> item_target it \<Longrightarrow> p \<noteq> item_source it \<Longrightarrow> nodes w1 p = nodes w p"
    using n unfolding s by auto
  have free1: "\<forall>j \<in> set L. nodes w1 (item_target j) = None"
  proof
    fix j assume j: "j \<in> set L"
    from Cons.prems(3) have "item_target it \<notin> item_target ` set L" by simp
    with j have "item_target j \<noteq> item_target it" by (metis imageI)
    moreover from j Cons.prems(2) have "nodes w (item_target j) = None" by simp
    ultimately show "nodes w1 (item_target j) = None" by (rule keepNone)
  qed
  from Cons.prems(3) have d1: "distinct (map item_target L)" by simp
  note IH = Cons.IH [OF q(2) free1 d1]
  have step: "moveAll mv w (it # L) = moveAll mv1 w1 L"
    by (simp add: it m)
  show ?case
    unfolding step using IH q keepNone keep by auto
qed

lemma quiet_segment_counts:
  assumes "\<not> mover_dryRun mv"
    and "\<forall>it \<in> set L. nodes w (item_target it) = None"
    and "distinct (map item_target L)"
    and "distinct (map item_source L)"
    and "moves_unhindered w L"
  shows "mover_successCount (fst (moveAll mv w L)) = mover_successCount mv + int (length L) \<and>
     mover_failCount (fst (moveAll mv w L)) = mover_failCount mv"
  using assms
proof (induction L arbitrary: mv w)
  case Nil
  then show ?case by simp
next
  case (Cons it L)
  obtain d f where it: "it = (d, f)" by (cases it)
  obtain ok mv1 w1 where m: "moveFile mv w f d = (ok, mv1, w1)" by (cases "moveFile mv w f d")
  have t: "item_target it = d @ ''/'' @ name f" and s: "item_source it = path f"
    by (simp_all add: it item_target_def item_source_def)
  have free: "nodes w (d @ ''/'' @ name f) = None"
    unfolding t [symmetric] using Cons.prems(2) by simp
  have un: "nodes w (path f) \<noteq> None" "\<not> stat_fails w (d @ ''/'' @ name f)"
    "\<not> rename_fails w (path f) (d @ ''/'' @ name f)"
    and unL: "moves_unhindered w L"
    unfolding t [symmetric] s [symmetric] using Cons.prems(5)
    by (simp_all add: moves_unhindered_def)
  from quiet_step [OF Cons.prems(1) free] m have
    q: "\<not> mover_dryRun mv1" "stat_fails w1 = stat_fails w" "rename_fails w1 = rename_fails w"
    and n: "nodes w1 = nodes w \<or>
      (\<exists>n. nodes w (path f) = Some n \<and>
           nodes w1 = ((nodes w)(path f := None))(item_target it \<mapsto> n))"
    unfolding t by simp_all
  from quiet_step_success [OF Cons.prems(1) free un] m have
    c: "mover_successCount mv1 = mover_successCount mv + 1" "mover_failCount mv1 = mover_failCount mv"
    by simp_all
  have free1: "\<forall>j \<in> set L. nodes w1 (item_target j) = None"
  proof
    fix j assume j: "j \<in> set L"
    from Cons.prems(3) have "item_target it \<notin> item_target ` set L" by simp
    with j have "item_target j \<noteq> item_target it" by (metis imageI)
    moreover from j Cons.prems(2) have "nodes w (item_target j) = None" by simp
    ultimately show "nodes w1 (item_target j) = None" using n by auto
  qed
  have src1: "\<forall>j \<in> set L. nodes w1 (item_source j) \<noteq> None"
  proof
    fix j assume j: "j \<in> set L"
    from Cons.prems(4) have "item_source it \<notin> item_source ` set L" by simp
    with j have "item_source j \<noteq> path f" unfolding s [symmetric] by (metis imageI)
    moreover from j unL have "nodes w (item_source j) \<noteq> None"
      by (simp add: moves_unhindered_def list_all_iff)
    ultimately show "nodes w1 (item_source j) \<noteq> None" using n by auto
  qed
  have un1: "moves_unhindered w1 L"
    using unL src1 by (simp add: moves_unhindered_def list_all_iff q)
  from Cons.prems(3,4) have d1: "distinct (map item_target L)" "distinct (map item_source L)"
    by simp_all
  note IH = Cons.IH [OF q(1) free1 d1 un1]
  have step: "moveAll mv w (it # L) = moveAll mv1 w1 L"
    by (simp add: it m)
  show ?case
    unfolding step using IH c by simp
qed

lemma quiet_segment_nodes:
  assumes "\<not> mover_dryRun mv"
    and "\<forall>it \<in> set L. nodes w (item_target it) = None"
    and "distinct (map item_target L)"
    and "moveAll mv w L = (mv', w')"
  shows "nodes w p = None \<Longrightarrow> p \<notin> item_target ` set L \<Longrightarrow> nodes w' p = None"
    and "nodes w p = Some n \<Longrightarrow> p \<notin> item_source ` set L \<Longrightarrow> nodes w' p = Some n"
    and "mover_warningCount mv' = mover_warningCount mv" and "\<not> mover_dryRun mv'"
    and "clock_reads w' = clock_reads w" and "stat_fails w' = stat_fails w"
    and "rename_fails w' = rename_fails w" and "local_time w' = local_time w"
proof -
  note q = quiet_segment [OF assms(1,2,3), unfolded assms(4), simplified]
  show "nodes w p = None \<Longrightarrow> p \<notin> item_target ` set L \<Longrightarrow> nodes w' p = None"
    using q by blast
  show "nodes w p = Some n \<Longrightarrow> p \<notin> item_source ` set L \<Longrightarrow> nodes w' p = Some n"
  proof -
    assume a: "nodes w p = Some n" and b: "p \<notin> item_source ` set L"
    from a assms(2) have "p \<notin> item_target ` set L" by auto
    with b q have "nodes w' p = nodes w p" by blast
    with a show ?thesis by simp
  qed
  show "mover_warningCount mv' = mover_warningCount mv" "\<not> mover_dryRun mv'"
    "clock_reads w' = clock_reads w" "stat_fails w' = stat_fails w"
    "rename_fails w' = rename_fails w" "local_time w' = local_time w"
    using q by simp_all
qed

lemma quiet_segment_tally:
  assumes "\<not> mover_dryRun mv"
    and "\<forall>it \<in> set L. nodes w (item_target it) = None"
    and "distinct (map item_target L)"
    and "distinct (map item_source L)"
    and "moves_unhindered w0 L"
    and "stat_fails w = stat_fails w0" and "rename_fails w = rename_fails w0"
    and "\<forall>it \<in> set L. nodes w0 (item_source it) \<noteq> None \<longrightarrow> nodes w (item_source it) \<noteq> None"
    and "moveAll mv w L = (mv', w')"
  shows "mover_successCount mv' = mover_successCount mv + int (length L)"
    and "mover_failCount mv' = mover_failCount mv"
proof -
  from assms(5,6,7,8) have "moves_unhindered w L"
    by (simp add: moves_unhindered_def list_all_iff)
  note c = quiet_segment_counts [OF assms(1,2,3,4) this, unfolded assms(9), simplified]
  from c show "mover_successCount mv' = mover_successCount mv + int (length L)" by simp
  from c show "mover_failCount mv' = mover_failCount mv" by simp
qed

lemma createCategoryDirectories_available:
  assumes "\<not> mover_dryRun mv"
  shows "directories_available w base cats \<Longrightarrow> fst (createCategoryDirectories mv w base cats)"
proof (induction cats arbitrary: w)
  case Nil
  show ?case by simp
next
  case (Cons e cats)
  obtain k fs where e: "e = (k, fs)" by (cases e)
  from Cons.prems have rest: "directories_available w base cats"
    by (simp add: directories_available_def)
  show ?case
  proof (cases "fs = []")
    case True
    with Cons.IH [OF rest] show ?thesis unfolding e by simp
  next
    case False
    with Cons.prems have st: "\<not> stat_fails w (base @ ''/'' @ k)"
      and dir: "nodes w (base @ ''/'' @ k) = Some Directory \<or>
           (nodes w (base @ ''/'' @ k) = None \<and> \<not> mkdir_fails w (base @ ''/'' @ k))"
      by (simp_all add: directories_available_def e)
    show ?thesis
    proof (cases "nodes w (base @ ''/'' @ k) = None")
      case ex: False
      with False st assms Cons.IH [OF rest] show ?thesis
        unfolding e by (auto simp: Let_def fs_exists_def)
    next
      case True
      with dir have mk: "\<not> mkdir_fails w (base @ ''/'' @ k)" by simp
      define w' where "w' = w\<lparr>nodes := (nodes w)(base @ ''/'' @ k \<mapsto> Directory)\<rparr>"
      have "directories_available w' base cats"
        using rest unfolding directories_available_def list_all_iff w'_def
        by (auto split: if_splits)
      from Cons.IH [OF this] False st assms True mk show ?thesis
        unfolding e w'_def by (auto simp: Let_def fs_exists_def fs_create_directory_def)
    qed
  qed
qed

lemma createCategoryDirectories_nodes:
  "nodes (snd (createCategoryDirectories mv w base cats)) p = nodes w p \<or>
   (nodes w p = None \<and> (\<exists>(k, fs) \<in> set cats. fs \<noteq> [] \<and> p = base @ ''/'' @ k))"
proof (induction cats arbitrary: w)
  case Nil
  show ?case by simp
next
  case (Cons e cats)
  obtain k fs where e: "e = (k, fs)" by (cases e)
  show ?case
  proof (cases "fs = [] \<or> mover_dryRun mv \<or> stat_fails w (base @ ''/'' @ k)
      \<or> nodes w (base @ ''/'' @ k) \<noteq> None")
    case True
    then show ?thesis
      unfolding e using Cons.IH [of w] by (auto simp: fs_exists_def Let_def)
  next
    case False
    show ?thesis
    proof (cases "fs_create_directory w (base @ ''/'' @ k)")
      case (Inl err)
      with False show ?thesis unfolding e by (auto simp: fs_exists_def Let_def)
    next
      case (Inr w')
      from fs_create_directory_world [OF Inr] False
      have w': "w' = w \<or> w' = w\<lparr>nodes := (nodes w)(base @ ''/'' @ k \<mapsto> Directory)\<rparr>"
        and n: "nodes w (base @ ''/'' @ k) = None" and ne: "fs \<noteq> []"
        by auto
      have step: "createCategoryDirectories mv w base ((k, fs) # cats)
          = createCategoryDirectories mv w' base cats"
        using False Inr by (auto simp: fs_exists_def Let_def)
      have here: "nodes w' p = nodes w p \<or> (nodes w p = None \<and> p = base @ ''/'' @ k)"
        using w' n by (auto split: if_splits)
      from Cons.IH [of w'] here ne show ?thesis
        unfolding e step by (auto split: if_splits)
    qed
  qed
qed

lemma batch_member:
  "it \<in> set (batch base cats) \<Longrightarrow>
   \<exists>k fs. (k, fs) \<in> set cats \<and> fs \<noteq> [] \<and> fst it = base @ ''/'' @ k"
  by (fastforce simp: batch_def)

lemma target_not_directory:
  assumes "CHR ''/'' \<notin> set k"
  shows "(base @ ''/'' @ k') @ ''/'' @ n \<noteq> base @ ''/'' @ k"
proof
  assume "(base @ ''/'' @ k') @ ''/'' @ n = base @ ''/'' @ k"
  then have "k' @ ''/'' @ n = k" by simp
  then have "CHR ''/'' \<in> set k" by auto
  with assms show False by simp
qed

text \<open>
  The categories of a classification have plain names: for the output of
  \<^verbatim>\<open>classifyFiles\<close> the directories are available as soon as they exist or can
  be created.
\<close>

lemma classifyFiles_plain_categories:
  assumes "(k, fs) \<in> set (classifyFiles files)"
  shows "CHR ''/'' \<notin> set k"
proof -
  from assms have "k \<in> fst ` set (classifyFiles files)" by force
  then have "k \<in> set getAllCategories" by (simp only: keys_classifyFiles)
  then show ?thesis by (auto simp: getAllCategories_def category_defs)
qed

lemma not_in_image: "(\<And>x. x \<in> S \<Longrightarrow> f x \<noteq> p) \<Longrightarrow> p \<notin> f ` S"
  by blast

lemma moveAll_collision:
  assumes real: "\<not> mover_dryRun mv"
    and T: "T = d @ ''/'' @ name f1"
    and R: "R = fst (handleFileCollision w d (name f1))"
    and names: "name f2 = name f1" and paths: "path f1 \<noteq> path f2"
    and src1: "nodes w (path f1) = Some n1"
    and src2: "nodes w (path f2) = Some n2"
    and free: "nodes w T = None"
    and others: "\<forall>it \<in> set (A @ B @ C).
        nodes w (item_target it) = None \<and> item_target it \<noteq> T \<and> item_target it \<noteq> R \<and>
        item_source it \<noteq> path f1 \<and> item_source it \<noteq> path f2 \<and>
        item_source it \<noteq> T \<and> item_source it \<noteq> R"
    and apart: "distinct (map item_target (A @ B @ C))"
    and stat: "\<not> stat_fails w T"
    and ren1: "\<not> rename_fails w (path f1) T"
    and run: "moveAll mv w (A @ (d, f1) # B @ (d, f2) # C) = (mv', w')"
  shows "mover_warningCount mv' = mover_warningCount mv + 1"
    and "nodes w' T = Some n1"
    and "rename_fails w (path f2) R \<Longrightarrow> nodes w' (path f2) = Some n2"
    and "\<not> rename_fails w (path f2) R \<Longrightarrow> nodes w' R = Some n2"
    and "moves_unhindered w (A @ B @ C) \<Longrightarrow> distinct (map item_source (A @ B @ C)) \<Longrightarrow>
         mover_failCount mv' = mover_failCount mv + (if rename_fails w (path f2) R then 1 else 0) \<and>
         mover_successCount mv' = mover_successCount mv + int (length (A @ B @ C))
           + (if rename_fails w (path f2) R then 1 else 2)"
proof -
  have oth: "\<And>it. it \<in> set A \<or> it \<in> set B \<or> it \<in> set C \<Longrightarrow>
        nodes w (item_target it) = None \<and> item_target it \<noteq> T \<and> item_target it \<noteq> R \<and>
        item_source it \<noteq> path f1 \<and> item_source it \<noteq> path f2 \<and>
        item_source it \<noteq> T \<and> item_source it \<noteq> R"
    using others by simp
  have notT: "T \<notin> item_target ` set A" "T \<notin> item_target ` set B" "T \<notin> item_target ` set C"
    "T \<notin> item_source ` set A" "T \<notin> item_source ` set B" "T \<notin> item_source ` set C"
    by (rule not_in_image, simp add: oth)+
  have notR: "R \<notin> item_target ` set C" "R \<notin> item_source ` set C"
    by (rule not_in_image, simp add: oth)+
  have not1: "path f1 \<notin> item_source ` set A"
    by (rule not_in_image, simp add: oth)
  have not2: "path f2 \<notin> item_source ` set A" "path f2 \<notin> item_source ` set B"
    "path f2 \<notin> item_source ` set C"
    by (rule not_in_image, simp add: oth)+
  have TR: "T \<noteq> R" unfolding T R using collision_path_differs [of w d "name f1"] by simp
  have T1: "T \<noteq> path f1" and T2: "T \<noteq> path f2" using free src1 src2 by auto
  have dA: "distinct (map item_target A)" and dB: "distinct (map item_target B)"
    and dC: "distinct (map item_target C)"
    and AB: "\<And>it. it \<in> set B \<Longrightarrow> item_target it \<notin> item_target ` set A"
    and AC: "\<And>it. it \<in> set C \<Longrightarrow> item_target it \<notin> item_target ` set A"
    and BC: "\<And>it. it \<in> set C \<Longrightarrow> item_target it \<notin> item_target ` set B"
    using apart by auto
  obtain mvA wA where sA: "moveAll mv w A = (mvA, wA)" by (cases "moveAll mv w A")
  have freeA: "\<forall>it \<in> set A. nodes w (item_target it) = None" using oth by blast
  note qA = quiet_segment_nodes [OF real freeA dA sA]
  have TA: "nodes wA T = None" by (rule qA(1) [OF free notT(1)])
  have s1A: "nodes wA (path f1) = Some n1" by (rule qA(2) [OF src1 not1])
  have s2A: "nodes wA (path f2) = Some n2" by (rule qA(2) [OF src2 not2(1)])
  define mvB0 where "mvB0 = mvA\<lparr>mover_successCount := mover_successCount mvA + 1\<rparr>"
  define wB0 where "wB0 = wA\<lparr>nodes := ((nodes wA)(path f1 := None))(T \<mapsto> n1)\<rparr>"
  have m1: "moveFile mvA wA f1 d = (True, mvB0, wB0)"
    unfolding mvB0_def wB0_def T
    using qA(4) stat TA ren1 s1A
    by (intro moveFile_fresh) (simp_all add: T qA)
  have realB0: "\<not> mover_dryRun mvB0" using qA(4) by (simp add: mvB0_def)
  have fieldsB0: "stat_fails wB0 = stat_fails w" "rename_fails wB0 = rename_fails w"
    "local_time wB0 = local_time w" "clock_reads wB0 = clock_reads w"
    "mover_warningCount mvB0 = mover_warningCount mv"
    by (simp_all add: wB0_def mvB0_def qA)
  have nB0: "\<And>p. p \<noteq> T \<Longrightarrow> nodes wA p = None \<Longrightarrow> nodes wB0 p = None"
    by (simp add: wB0_def)
  have kB0: "\<And>p. p \<noteq> path f1 \<Longrightarrow> nodes wA p \<noteq> None \<Longrightarrow> nodes wB0 p \<noteq> None"
    by (simp add: wB0_def)
  have TB0: "nodes wB0 T = Some n1" by (simp add: wB0_def)
  have s2B0: "nodes wB0 (path f2) = Some n2" using s2A paths T2 by (simp add: wB0_def)
  obtain mvB wB where sB: "moveAll mvB0 wB0 B = (mvB, wB)" by (cases "moveAll mvB0 wB0 B")
  have freeB: "\<forall>it \<in> set B. nodes wB0 (item_target it) = None"
  proof
    fix it assume it: "it \<in> set B"
    with oth have "nodes w (item_target it) = None" "item_target it \<noteq> T" by blast+
    with qA(1) [OF _ AB [OF it]] nB0 show "nodes wB0 (item_target it) = None" by blast
  qed
  note qB = quiet_segment_nodes [OF realB0 freeB dB sB]
  have TB: "nodes wB T = Some n1" by (rule qB(2) [OF TB0 notT(5)])
  have s2B: "nodes wB (path f2) = Some n2" by (rule qB(2) [OF s2B0 not2(2)])
  have RB: "fst (handleFileCollision wB d (name f2)) = R"
    unfolding R by (simp add: handleFileCollision_path names qB fieldsB0)
  obtain ok2 mvC0 wC0 where m2: "moveFile mvB wB f2 d = (ok2, mvC0, wC0)"
    by (cases "moveFile mvB wB f2 d")
  have statB: "\<not> stat_fails wB (d @ ''/'' @ name f2)"
    using stat by (simp add: T names qB fieldsB0)
  have TB': "nodes wB (d @ ''/'' @ name f2) = Some n1"
    using TB by (simp add: T names)
  note mc = moveFile_collision [OF qB(4) statB TB' s2B, unfolded RB m2 qB(7) fieldsB0(2)]
  have realC0: "\<not> mover_dryRun mvC0" using mc qB(4) by (simp split: if_splits)
  have warnC0: "mover_warningCount mvC0 = mover_warningCount mv + 1"
    using mc qB(3) fieldsB0(5) by (auto split: if_splits)
  have fieldsC0: "stat_fails wC0 = stat_fails w" "rename_fails wC0 = rename_fails w"
    using mc qB(6,7) fieldsB0(1,2) by (auto split: if_splits)
  have nodesC0: "nodes wC0 = (if rename_fails w (path f2) R then nodes wB
      else ((nodes wB)(path f2 := None))(R \<mapsto> n2))"
    using mc by (auto split: if_splits)
  have countC0: "mover_successCount mvC0
        = mover_successCount mvB + (if rename_fails w (path f2) R then 0 else 1)"
    "mover_failCount mvC0
        = mover_failCount mvB + (if rename_fails w (path f2) R then 1 else 0)"
    using mc by (auto split: if_splits)
  have TC0: "nodes wC0 T = Some n1" using TB TR T2 by (simp add: nodesC0)
  have freeC: "\<forall>it \<in> set C. nodes wC0 (item_target it) = None"
  proof
    fix it assume it: "it \<in> set C"
    with oth have o: "nodes w (item_target it) = None" "item_target it \<noteq> T"
      "item_target it \<noteq> R" by blast+
    from qA(1) [OF o(1) AC [OF it]] nB0 o(2) have "nodes wB0 (item_target it) = None" by blast
    from qB(1) [OF this BC [OF it]] o(3) show "nodes wC0 (item_target it) = None"
      by (simp add: nodesC0)
  qed
  have sC: "moveAll mvC0 wC0 C = (mv', w')"
    using run by (simp add: moveAll_append sA m1 sB m2)
  note qC = quiet_segment_nodes [OF realC0 freeC dC sC]
  show "mover_warningCount mv' = mover_warningCount mv + 1"
    using qC(3) warnC0 by simp
  show "nodes w' T = Some n1" by (rule qC(2) [OF TC0 notT(6)])
  show "rename_fails w (path f2) R \<Longrightarrow> nodes w' (path f2) = Some n2"
  proof -
    assume "rename_fails w (path f2) R"
    with s2B have "nodes wC0 (path f2) = Some n2" by (simp add: nodesC0)
    from qC(2) [OF this not2(3)] show ?thesis .
  qed
  show "\<not> rename_fails w (path f2) R \<Longrightarrow> nodes w' R = Some n2"
  proof -
    assume "\<not> rename_fails w (path f2) R"
    then have "nodes wC0 R = Some n2" by (simp add: nodesC0)
    from qC(2) [OF this notR(2)] show ?thesis .
  qed
  show "mover_failCount mv' = mover_failCount mv + (if rename_fails w (path f2) R then 1 else 0) \<and>
      mover_successCount mv' = mover_successCount mv + int (length (A @ B @ C))
        + (if rename_fails w (path f2) R then 1 else 2)"
    if un: "moves_unhindered w (A @ B @ C)" and ds: "distinct (map item_source (A @ B @ C))"
  proof -
    from un have unA: "moves_unhindered w A" and unB: "moves_unhindered w B"
      and unC: "moves_unhindered w C"
      by (simp_all add: moves_unhindered_def)
    from ds have sdA: "distinct (map item_source A)" and sdB: "distinct (map item_source B)"
      and sdC: "distinct (map item_source C)"
      and sAB: "\<And>it. it \<in> set B \<Longrightarrow> item_source it \<notin> item_source ` set A"
      and sAC: "\<And>it. it \<in> set C \<Longrightarrow> item_source it \<notin> item_source ` set A"
      and sBC: "\<And>it. it \<in> set C \<Longrightarrow> item_source it \<notin> item_source ` set B"
      by auto
    note tA = quiet_segment_tally [OF real freeA dA sdA unA refl refl _ sA]
    have cA: "mover_successCount mvA = mover_successCount mv + int (length A)"
      "mover_failCount mvA = mover_failCount mv"
      by (rule tA, simp)+
    have srcB: "\<forall>it \<in> set B. nodes w (item_source it) \<noteq> None
        \<longrightarrow> nodes wB0 (item_source it) \<noteq> None"
    proof (intro ballI impI)
      fix it assume it: "it \<in> set B" and "nodes w (item_source it) \<noteq> None"
      then obtain n where "nodes w (item_source it) = Some n" by auto
      from qA(2) [OF this sAB [OF it]] have "nodes wA (item_source it) \<noteq> None" by simp
      moreover from oth it have "item_source it \<noteq> path f1" by blast
      ultimately show "nodes wB0 (item_source it) \<noteq> None" by (rule kB0 [rotated])
    qed
    note tB = quiet_segment_tally [OF realB0 freeB dB sdB unB fieldsB0(1,2) srcB sB]
    have srcC: "\<forall>it \<in> set C. nodes w (item_source it) \<noteq> None
        \<longrightarrow> nodes wC0 (item_source it) \<noteq> None"
    proof (intro ballI impI)
      fix it assume it: "it \<in> set C" and "nodes w (item_source it) \<noteq> None"
      then obtain n where "nodes w (item_source it) = Some n" by auto
      from qA(2) [OF this sAC [OF it]] have "nodes wA (item_source it) \<noteq> None" by simp
      moreover from oth it have ne: "item_source it \<noteq> path f1" "item_source it \<noteq> path f2"
        by blast+
      ultimately have "nodes wB0 (item_source it) \<noteq> None" using kB0 by blast
      then obtain n' where "nodes wB0 (item_source it) = Some n'" by auto
      from qB(2) [OF this sBC [OF it]] ne(2) show "nodes wC0 (item_source it) \<noteq> None"
        by (simp add: nodesC0)
    qed
    note tC = quiet_segment_tally [OF realC0 freeC dC sdC unC fieldsC0 srcC sC]
    have cB0: "mover_successCount mvB0 = mover_successCount mvA + 1"
      "mover_failCount mvB0 = mover_failCount mvA"
      by (simp_all add: mvB0_def)
    from cA cB0 tB tC countC0 show ?thesis by simp
  qed
qed

lemma directories_keep_targets:
  assumes "directories_available w base cats" and "it \<in> set (batch base cats)"
  shows "nodes (snd (createCategoryDirectories mv w base cats)) (fst it @ ''/'' @ n)
     = nodes w (fst it @ ''/'' @ n)"
proof -
  from batch_member [OF assms(2)] obtain k' where f: "fst it = base @ ''/'' @ k'" by blast
  have "\<not> (\<exists>(k, fs) \<in> set cats. fs \<noteq> [] \<and> fst it @ ''/'' @ n = base @ ''/'' @ k)"
  proof
    assume "\<exists>(k, fs) \<in> set cats. fs \<noteq> [] \<and> fst it @ ''/'' @ n = base @ ''/'' @ k"
    then obtain k fs where m: "(k, fs) \<in> set cats" "fs \<noteq> []"
      and e: "fst it @ ''/'' @ n = base @ ''/'' @ k"
      by auto
    from assms(1) m have "CHR ''/'' \<notin> set k"
      by (auto simp: directories_available_def list_all_iff)
    from target_not_directory [OF this, of base k' n] e show False
      unfolding f by simp
  qed
  with createCategoryDirectories_nodes [of mv w base cats "fst it @ ''/'' @ n"]
  show ?thesis by blast
qed

lemma directories_keep_sources:
  "nodes w p \<noteq> None \<Longrightarrow> nodes (snd (createCategoryDirectories mv w base cats)) p \<noteq> None"
  using createCategoryDirectories_nodes [of mv w base cats p] by auto

text \<open>
  Claim C2, as amended. In real mode, let one call of \<^verbatim>\<open>organizeFiles\<close> move two
  existing files with different paths and the same name to the directory of one category,
  among any other files. Suppose that nothing exists yet at the destination path of that
  name, and that no other file interferes: nothing exists yet at the destination paths of
  the other files, these paths differ from each other, from the destination path of the
  name and from the timestamped path, and no other file is at the path of one of the two
  files, at the destination path of the name or at the timestamped path. Suppose also
  that the category directories are available, and that the existence check and the move
  of the first file do not fail. Then the call returns true, moves the first file to the
  destination path of its name, and computes for the second file a different path in the
  same directory: the stem of the name, an underscore, the local time of the collision
  printed as \<^verbatim>\<open>YYYYMMDD_HHMMSS\<close>, and the extension of the name. The warning counter
  is exactly 1. If the second move succeeds, the second file is at that path; if it fails,
  the file stays where it was. Every file is counted once; when the other files have
  different paths, exist and are moved without failure, the fail counter is 1 if the
  second move fails and 0 otherwise, and the success counter is the number of files less
  the fail counter.
\<close>

theorem organizeFiles_name_collision:
  assumes real: "\<not> mover_dryRun mv"
    and order: "batch base cats = A @ (d, f1) # B @ (d, f2) # C"
    and names: "name f2 = name f1" and paths: "path f1 \<noteq> path f2"
    and src1: "nodes w (path f1) = Some (File x1)"
    and src2: "nodes w (path f2) = Some (File x2)"
    and free: "nodes w (d @ ''/'' @ name f1) = None"
    and others: "\<forall>it \<in> set (A @ B @ C).
        nodes w (item_target it) = None \<and>
        item_target it \<noteq> d @ ''/'' @ name f1 \<and>
        item_target it \<noteq> fst (handleFileCollision w d (name f1)) \<and>
        item_source it \<noteq> path f1 \<and> item_source it \<noteq> path f2 \<and>
        item_source it \<noteq> d @ ''/'' @ name f1 \<and>
        item_source it \<noteq> fst (handleFileCollision w d (name f1))"
    and apart: "distinct (map item_target (A @ B @ C))"
    and dirs: "directories_available w base cats"
    and stat: "\<not> stat_fails w (d @ ''/'' @ name f1)"
    and ren1: "\<not> rename_fails w (path f1) (d @ ''/'' @ name f1)"
    and clock: "tm_in_range (local_time w (clock_reads w))"
  shows "fst (organizeFiles mv w base cats) \<and>
     mover_warningCount (fst (snd (organizeFiles mv w base cats))) = 1 \<and>
     nodes (snd (snd (organizeFiles mv w base cats))) (d @ ''/'' @ name f1) = Some (File x1) \<and>
     fst (handleFileCollision w d (name f1)) \<noteq> d @ ''/'' @ name f1 \<and>
     fst (handleFileCollision w d (name f1))
       = d @ ''/'' @ path_stem (name f1) @ ''_'' @
           put_time (local_time w (clock_reads w)) @ path_extension (name f1) \<and>
     timestamp_shaped (put_time (local_time w (clock_reads w))) \<and>
     path_stem (name f1) @ path_extension (name f1) = path_filename (name f1) \<and>
     (if rename_fails w (path f2) (fst (handleFileCollision w d (name f1)))
      then nodes (snd (snd (organizeFiles mv w base cats))) (path f2) = Some (File x2)
      else nodes (snd (snd (organizeFiles mv w base cats)))
             (fst (handleFileCollision w d (name f1))) = Some (File x2)) \<and>
     mover_successCount (fst (snd (organizeFiles mv w base cats)))
       + mover_failCount (fst (snd (organizeFiles mv w base cats))) = int (totalFiles cats) \<and>
     (moves_unhindered w (A @ B @ C) \<and> distinct (map item_source (A @ B @ C)) \<longrightarrow>
        mover_failCount (fst (snd (organizeFiles mv w base cats)))
          = (if rename_fails w (path f2) (fst (handleFileCollision w d (name f1))) then 1 else 0) \<and>
        mover_successCount (fst (snd (organizeFiles mv w base cats)))
          = int (totalFiles cats)
            - (if rename_fails w (path f2) (fst (handleFileCollision w d (name f1))) then 1 else 0))"
proof -
  define T where "T = d @ ''/'' @ name f1"
  define R where "R = fst (handleFileCollision w d (name f1))"
  define mv0 where "mv0 = resetCounters mv"
  define w1 where "w1 = snd (createCategoryDirectories mv w base cats)"
  have real0: "\<not> mover_dryRun mv0" using real by (simp add: mv0_def resetCounters_def)
  have zero: "mover_successCount mv0 = 0" "mover_failCount mv0 = 0" "mover_warningCount mv0 = 0"
    by (simp_all add: mv0_def resetCounters_def)
  have ok: "fst (createCategoryDirectories mv w base cats)"
    by (rule createCategoryDirectories_available [OF real dirs])
  have keep: "stat_fails w1 = stat_fails w" "rename_fails w1 = rename_fails w"
    "local_time w1 = local_time w" "clock_reads w1 = clock_reads w"
    and files: "\<And>p c. (nodes w1 p = Some (File c)) = (nodes w p = Some (File c))"
    unfolding w1_def using createCategoryDirectories_keeps [of mv w base cats] by simp_all
  have tgt: "\<And>it n. it \<in> set (batch base cats)
      \<Longrightarrow> nodes w1 (fst it @ ''/'' @ n) = nodes w (fst it @ ''/'' @ n)"
    unfolding w1_def by (rule directories_keep_targets [OF dirs])
  have T1: "T = d @ ''/'' @ name f1" by (rule T_def)
  have R1: "R = fst (handleFileCollision w1 d (name f1))"
    by (simp add: R_def handleFileCollision_path keep)
  have s1: "nodes w1 (path f1) = Some (File x1)" and s2: "nodes w1 (path f2) = Some (File x2)"
    using src1 src2 by (simp_all add: files)
  have "(d, f1) \<in> set (batch base cats)" by (simp add: order)
  from tgt [OF this, of "name f1"] free have free1: "nodes w1 T = None"
    by (simp add: T_def)
  have others1: "\<forall>it \<in> set (A @ B @ C).
        nodes w1 (item_target it) = None \<and> item_target it \<noteq> T \<and> item_target it \<noteq> R \<and>
        item_source it \<noteq> path f1 \<and> item_source it \<noteq> path f2 \<and>
        item_source it \<noteq> T \<and> item_source it \<noteq> R"
  proof
    fix it assume it: "it \<in> set (A @ B @ C)"
    then have "it \<in> set (batch base cats)" by (auto simp: order)
    from tgt [OF this, of "name (snd it)"]
    have "nodes w1 (item_target it) = nodes w (item_target it)"
      by (simp add: item_target_def)
    with others it show "nodes w1 (item_target it) = None \<and> item_target it \<noteq> T \<and>
        item_target it \<noteq> R \<and>
        item_source it \<noteq> path f1 \<and> item_source it \<noteq> path f2 \<and>
        item_source it \<noteq> T \<and> item_source it \<noteq> R"
      unfolding T_def R_def by simp
  qed
  have stat1: "\<not> stat_fails w1 T" using stat by (simp add: T_def keep)
  have ren11: "\<not> rename_fails w1 (path f1) T" using ren1 by (simp add: T_def keep)
  obtain mv' w' where run: "moveAll mv0 w1 (A @ (d, f1) # B @ (d, f2) # C) = (mv', w')"
    by (cases "moveAll mv0 w1 (A @ (d, f1) # B @ (d, f2) # C)")
  have org: "organizeFiles mv w base cats = (True, mv', w')"
    using organizeFiles_phase_success [OF ok]
    by (simp add: mv0_def [symmetric] w1_def [symmetric] moveCategories_moveAll order run)
  note mc = moveAll_collision [OF real0 T1 R1 names paths s1 s2 free1 others1 apart stat1 ren11 run,
      unfolded keep zero]
  have total: "mover_successCount mv' + mover_failCount mv' = int (totalFiles cats)"
    using moveCategories_count [of mv0 w1 base cats]
    by (simp add: moveCategories_moveAll order run zero)
  have len: "int (totalFiles cats) = int (length (A @ B @ C)) + 2"
    using length_batch [of base cats] by (simp add: order)
  have un: "moves_unhindered w1 (A @ B @ C)" if "moves_unhindered w (A @ B @ C)"
    using that directories_keep_sources [of w _ mv base cats]
    unfolding moves_unhindered_def list_all_iff w1_def [symmetric] keep
    by blast
  have shaped: "timestamp_shaped (put_time (local_time w (clock_reads w)))"
    by (rule put_time_shaped [OF clock])
  have differs: "R \<noteq> T" unfolding R_def T_def by (rule collision_path_differs)
  have form: "R = d @ ''/'' @ path_stem (name f1) @ ''_'' @
           put_time (local_time w (clock_reads w)) @ path_extension (name f1)"
    unfolding R_def by (rule handleFileCollision_path)
  have counts: "mover_failCount mv' = (if rename_fails w (path f2) R then 1 else 0) \<and>
      mover_successCount mv' = int (totalFiles cats) - (if rename_fails w (path f2) R then 1 else 0)"
    if "moves_unhindered w (A @ B @ C)" and "distinct (map item_source (A @ B @ C))"
    using mc(5) [OF un [OF that(1)] that(2)] unfolding len by simp
  have a1: "fst (organizeFiles mv w base cats)" by (simp add: org)
  have a2: "mover_warningCount (fst (snd (organizeFiles mv w base cats))) = 1"
    using mc(1) by (simp add: org)
  have a3: "nodes (snd (snd (organizeFiles mv w base cats))) T = Some (File x1)"
    using mc(2) by (simp add: org)
  have a4: "if rename_fails w (path f2) R
      then nodes (snd (snd (organizeFiles mv w base cats))) (path f2) = Some (File x2)
      else nodes (snd (snd (organizeFiles mv w base cats))) R = Some (File x2)"
    using mc(3,4) by (simp add: org)
  have a5: "mover_successCount (fst (snd (organizeFiles mv w base cats)))
       + mover_failCount (fst (snd (organizeFiles mv w base cats))) = int (totalFiles cats)"
    using total by (simp add: org)
  have a6: "moves_unhindered w (A @ B @ C) \<and> distinct (map item_source (A @ B @ C)) \<longrightarrow>
        mover_failCount (fst (snd (organizeFiles mv w base cats)))
          = (if rename_fails w (path f2) R then 1 else 0) \<and>
        mover_successCount (fst (snd (organizeFiles mv w base cats)))
          = int (totalFiles cats) - (if rename_fails w (path f2) R then 1 else 0)"
    using counts by (simp add: org)
  from a1 a2 a3 differs form shaped path_stem_extension [of "name f1"] a4 a5 a6
  show ?thesis
    unfolding T_def [symmetric] R_def [symmetric] by blast
qed

lemma put_time_example_tm: "put_time example_tm = ''20261102_090507''"
  by (simp add: put_time_def example_tm_def two_digits_def decimal.simps digit_char_def)

lemma stem_report_pdf:
  "path_stem ''report.pdf'' = ''report'' \<and> path_extension ''report.pdf'' = ''.pdf''"
  by (simp add: path_stem_def path_extension_def path_filename_def filename_extension_def Let_def)

lemma two_reports_classified:
  "classifyFiles [report_pdf, downloads_report_pdf] =
     [(''Archives'', []), (''Code'', []), (''Documents'', [report_pdf, downloads_report_pdf]),
      (''Images'', []), (''Others'', []), (''Videos'', [])]"
  by code_simp

lemma example_file_fields:
  "path report_pdf = ''/d/report.pdf''" "name report_pdf = ''report.pdf''"
  "path downloads_report_pdf = ''/x/report.pdf''" "name downloads_report_pdf = ''report.pdf''"
  "path photo_jpg = ''/d/photo.jpg''" "name photo_jpg = ''photo.jpg''"
  by (simp_all add: report_pdf_def downloads_report_pdf_def photo_jpg_def)

lemma tm_in_range_example_tm: "tm_in_range example_tm"
  by (simp add: tm_in_range_def example_tm_def)

lemmas example_defs =
  organizeFiles_def moveFile_def fs_exists_def fs_rename_def fs_create_directory_def
  handleFileCollision_def Let_def newFileMover_def occupied_world_def healthy_world_def
  desktop_nodes_def example_file_fields
  stem_report_pdf put_time_example_tm category_defs tm_in_range_example_tm

lemma mixed_classified:
  "classifyFiles mixed_files =
     [(''Archives'', []), (''Code'', []),
      (''Documents'', [report_pdf, notes_txt, downloads_report_pdf]),
      (''Images'', [photo_jpg]), (''Others'', []), (''Videos'', [])]"
  by code_simp

lemma three_reports_classified:
  "classifyFiles [report_pdf, downloads_report_pdf, backup_report_pdf] =
     [(''Archives'', []), (''Code'', []),
      (''Documents'', [report_pdf, downloads_report_pdf, backup_report_pdf]),
      (''Images'', []), (''Others'', []), (''Videos'', [])]"
  by code_simp

lemma more_file_fields:
  "path notes_txt = ''/d/notes.txt''" "name notes_txt = ''notes.txt''"
  "path backup_report_pdf = ''/y/report.pdf''" "name backup_report_pdf = ''report.pdf''"
  by (simp_all add: notes_txt_def backup_report_pdf_def)

lemmas collision_example_defs =
  example_defs more_file_fields mixed_world_def three_reports_world_def
  mixed_classified three_reports_classified two_reports_classified
  batch_def item_target_def item_source_def moves_unhindered_def directories_available_def
  totalFiles_def

theorem organizeFiles_name_collision_witness:
  "\<not> mover_dryRun (newFileMover False) \<and>
   batch ''/d'' (classifyFiles mixed_files) = [] @ (''/d/Documents'', report_pdf) # [(''/d/Documents'', notes_txt)] @ (''/d/Documents'', downloads_report_pdf) # [(''/d/Images'', photo_jpg)] \<and>
   name downloads_report_pdf = name report_pdf \<and>
   path report_pdf \<noteq> path downloads_report_pdf \<and>
   nodes mixed_world (path report_pdf) = Some (File 1) \<and>
   nodes mixed_world (path downloads_report_pdf) = Some (File 3) \<and>
   nodes mixed_world (''/d/Documents'' @ ''/'' @ name report_pdf) = None \<and>
   list_all (\<lambda>it.
        nodes mixed_world (item_target it) = None \<and>
        item_target it \<noteq> ''/d/Documents'' @ ''/'' @ name report_pdf \<and>
        item_target it \<noteq> fst (handleFileCollision mixed_world ''/d/Documents'' (name report_pdf)) \<and>
        item_source it \<noteq> path report_pdf \<and> item_source it \<noteq> path downloads_report_pdf \<and>
        item_source it \<noteq> ''/d/Documents'' @ ''/'' @ name report_pdf \<and>
        item_source it \<noteq> fst (handleFileCollision mixed_world ''/d/Documents'' (name report_pdf)))
     ([] @ [(''/d/Documents'', notes_txt)] @ [(''/d/Images'', photo_jpg)]) \<and>
   distinct (map item_target ([] @ [(''/d/Documents'', notes_txt)] @ [(''/d/Images'', photo_jpg)])) \<and>
   directories_available mixed_world ''/d'' (classifyFiles mixed_files) \<and>
   \<not> stat_fails mixed_world (''/d/Documents'' @ ''/'' @ name report_pdf) \<and>
   \<not> rename_fails mixed_world (path report_pdf) (''/d/Documents'' @ ''/'' @ name report_pdf) \<and>
   tm_in_range (local_time mixed_world (clock_reads mixed_world)) \<and>
   moves_unhindered mixed_world ([] @ [(''/d/Documents'', notes_txt)] @ [(''/d/Images'', photo_jpg)]) \<and>
   distinct (map item_source ([] @ [(''/d/Documents'', notes_txt)] @ [(''/d/Images'', photo_jpg)])) \<and>
   \<not> rename_fails mixed_world (path downloads_report_pdf) (fst (handleFileCollision mixed_world ''/d/Documents'' (name report_pdf))) \<and>
   fst (handleFileCollision mixed_world ''/d/Documents'' (name report_pdf)) = ''/d/Documents/report_20261102_090507.pdf'' \<and>
   totalFiles (classifyFiles mixed_files) = 4 \<and>
   fst (organizeFiles (newFileMover False) mixed_world ''/d'' (classifyFiles mixed_files)) \<and>
   mover_warningCount (fst (snd (organizeFiles (newFileMover False) mixed_world ''/d'' (classifyFiles mixed_files)))) = 1 \<and>
   mover_successCount (fst (snd (organizeFiles (newFileMover False) mixed_world ''/d'' (classifyFiles mixed_files)))) = 4 \<and>
   mover_failCount (fst (snd (organizeFiles (newFileMover False) mixed_world ''/d'' (classifyFiles mixed_files)))) = 0 \<and>
   nodes (snd (snd (organizeFiles (newFileMover False) mixed_world ''/d'' (classifyFiles mixed_files)))) ''/d/Documents/report.pdf'' = Some (File 1) \<and>
   nodes (snd (snd (organizeFiles (newFileMover False) mixed_world ''/d'' (classifyFiles mixed_files)))) ''/d/Documents/report_20261102_090507.pdf'' = Some (File 3) \<and>
   timestamp_shaped (put_time (local_time mixed_world (clock_reads mixed_world)))"
proof -
  have h1: "\<not> mover_dryRun (newFileMover False)"
    by (simp add: collision_example_defs)
  have h2: "batch ''/d'' (classifyFiles mixed_files) = [] @ (''/d/Documents'', report_pdf) # [(''/d/Documents'', notes_txt)] @ (''/d/Documents'', downloads_report_pdf) # [(''/d/Images'', photo_jpg)]"
    by (simp add: collision_example_defs)
  have h3: "name downloads_report_pdf = name report_pdf"
    by (simp add: collision_example_defs)
  have h4: "path report_pdf \<noteq> path downloads_report_pdf"
    by (simp add: collision_example_defs)
  have h5: "nodes mixed_world (path report_pdf) = Some (File 1)"
    by (simp add: collision_example_defs)
  have h6: "nodes mixed_world (path downloads_report_pdf) = Some (File 3)"
    by (simp add: collision_example_defs)
  have h7: "nodes mixed_world (''/d/Documents'' @ ''/'' @ name report_pdf) = None"
    by (simp add: collision_example_defs)
  have h8: "(\<forall>it \<in> set ([] @ [(''/d/Documents'', notes_txt)] @ [(''/d/Images'', photo_jpg)]).
        nodes mixed_world (item_target it) = None \<and>
        item_target it \<noteq> ''/d/Documents'' @ ''/'' @ name report_pdf \<and>
        item_target it \<noteq> fst (handleFileCollision mixed_world ''/d/Documents'' (name report_pdf)) \<and>
        item_source it \<noteq> path report_pdf \<and> item_source it \<noteq> path downloads_report_pdf \<and>
        item_source it \<noteq> ''/d/Documents'' @ ''/'' @ name report_pdf \<and>
        item_source it \<noteq> fst (handleFileCollision mixed_world ''/d/Documents'' (name report_pdf)))"
    by (simp add: collision_example_defs)
  have h9: "distinct (map item_target ([] @ [(''/d/Documents'', notes_txt)] @ [(''/d/Images'', photo_jpg)]))"
    by (simp add: collision_example_defs)
  have h10: "directories_available mixed_world ''/d'' (classifyFiles mixed_files)"
    by (simp add: collision_example_defs)
  have h11: "\<not> stat_fails mixed_world (''/d/Documents'' @ ''/'' @ name report_pdf)"
    by (simp add: collision_example_defs)
  have h12: "\<not> rename_fails mixed_world (path report_pdf) (''/d/Documents'' @ ''/'' @ name report_pdf)"
    by (simp add: collision_example_defs)
  have h13: "tm_in_range (local_time mixed_world (clock_reads mixed_world))"
    by (simp add: collision_example_defs)
  have l8: "list_all (\<lambda>it.
        nodes mixed_world (item_target it) = None \<and>
        item_target it \<noteq> ''/d/Documents'' @ ''/'' @ name report_pdf \<and>
        item_target it \<noteq> fst (handleFileCollision mixed_world ''/d/Documents'' (name report_pdf)) \<and>
        item_source it \<noteq> path report_pdf \<and> item_source it \<noteq> path downloads_report_pdf \<and>
        item_source it \<noteq> ''/d/Documents'' @ ''/'' @ name report_pdf \<and>
        item_source it \<noteq> fst (handleFileCollision mixed_world ''/d/Documents'' (name report_pdf)))
     ([] @ [(''/d/Documents'', notes_txt)] @ [(''/d/Images'', photo_jpg)])"
    using h8 by (simp only: list_all_iff)
  have e1: "moves_unhindered mixed_world ([] @ [(''/d/Documents'', notes_txt)] @ [(''/d/Images'', photo_jpg)])"
    by (simp add: collision_example_defs)
  have e2: "distinct (map item_source ([] @ [(''/d/Documents'', notes_txt)] @ [(''/d/Images'', photo_jpg)]))"
    by (simp add: collision_example_defs)
  have e3: "\<not> rename_fails mixed_world (path downloads_report_pdf) (fst (handleFileCollision mixed_world ''/d/Documents'' (name report_pdf)))"
    by (simp add: collision_example_defs)
  have e4: "fst (handleFileCollision mixed_world ''/d/Documents'' (name report_pdf)) = ''/d/Documents/report_20261102_090507.pdf''"
    by (simp add: collision_example_defs)
  have e5: "totalFiles (classifyFiles mixed_files) = 4"
    by (simp add: collision_example_defs)
  note inst = organizeFiles_name_collision [OF h1 h2 h3 h4 h5 h6 h7 h8 h9 h10 h11 h12 h13]
  from inst e1 e2 e3 e4 e5 have c1: "fst (organizeFiles (newFileMover False) mixed_world ''/d'' (classifyFiles mixed_files))"
    by (simp add: example_file_fields)
  from inst e1 e2 e3 e4 e5 have c2: "mover_warningCount (fst (snd (organizeFiles (newFileMover False) mixed_world ''/d'' (classifyFiles mixed_files)))) = 1"
    by (simp add: example_file_fields)
  from inst e1 e2 e3 e4 e5 have c3: "mover_successCount (fst (snd (organizeFiles (newFileMover False) mixed_world ''/d'' (classifyFiles mixed_files)))) = 4"
    by (simp add: example_file_fields)
  from inst e1 e2 e3 e4 e5 have c4: "mover_failCount (fst (snd (organizeFiles (newFileMover False) mixed_world ''/d'' (classifyFiles mixed_files)))) = 0"
    by (simp add: example_file_fields)
  from inst e1 e2 e3 e4 e5 have c5: "nodes (snd (snd (organizeFiles (newFileMover False) mixed_world ''/d'' (classifyFiles mixed_files)))) ''/d/Documents/report.pdf'' = Some (File 1)"
    by (simp add: example_file_fields)
  from inst have "if rename_fails mixed_world (path downloads_report_pdf) (fst (handleFileCollision mixed_world ''/d/Documents'' (name report_pdf)))
      then nodes (snd (snd (organizeFiles (newFileMover False) mixed_world ''/d'' (classifyFiles mixed_files)))) (path downloads_report_pdf) = Some (File 3)
      else nodes (snd (snd (organizeFiles (newFileMover False) mixed_world ''/d'' (classifyFiles mixed_files))))
             (fst (handleFileCollision mixed_world ''/d/Documents'' (name report_pdf))) = Some (File 3)"
    by blast
  with e3 have "nodes (snd (snd (organizeFiles (newFileMover False) mixed_world ''/d'' (classifyFiles mixed_files))))
             (fst (handleFileCollision mixed_world ''/d/Documents'' (name report_pdf))) = Some (File 3)"
    by (simp only: if_False)
  then have c6: "nodes (snd (snd (organizeFiles (newFileMover False) mixed_world ''/d'' (classifyFiles mixed_files)))) ''/d/Documents/report_20261102_090507.pdf'' = Some (File 3)"
    by (simp only: e4)
  from inst e1 e2 e3 e4 e5 have c7: "timestamp_shaped (put_time (local_time mixed_world (clock_reads mixed_world)))"
    by (simp add: example_file_fields)
  from h1 h2 h3 h4 h5 h6 h7 l8 h9 h10 h11 h12 h13 e1 e2 e3 e4 e5 c1 c2 c3 c4 c5 c6 c7 show ?thesis
    by blast
qed

theorem organizeFiles_name_collision_counterexample:
  "name downloads_report_pdf = name report_pdf \<and>
   path report_pdf \<noteq> path downloads_report_pdf \<and>
   classifyFile downloads_report_pdf = classifyFile report_pdf \<and>
   \<not> mover_dryRun (newFileMover False) \<and>
   fst (organizeFiles (newFileMover False) occupied_world ''/d''
       (classifyFiles [report_pdf, downloads_report_pdf])) \<and>
   mover_warningCount (fst (snd (organizeFiles (newFileMover False) occupied_world
       ''/d'' (classifyFiles [report_pdf, downloads_report_pdf])))) = 2 \<and>
   mover_successCount (fst (snd (organizeFiles (newFileMover False) occupied_world
       ''/d'' (classifyFiles [report_pdf, downloads_report_pdf])))) = 2 \<and>
   map (nodes (snd (snd (organizeFiles (newFileMover False) occupied_world ''/d''
       (classifyFiles [report_pdf, downloads_report_pdf])))))
     [''/d/report.pdf'', ''/x/report.pdf'',
      ''/d/Documents/report.pdf'',
      ''/d/Documents/report_20261102_090507.pdf'']
     = [None, None, Some (File 9), Some (File 3)] \<and>
   name backup_report_pdf = name report_pdf \<and>
   classifyFile backup_report_pdf = classifyFile report_pdf \<and>
   nodes three_reports_world ''/d/Documents/report.pdf'' = None \<and>
   fst (organizeFiles (newFileMover False) three_reports_world ''/d''
       (classifyFiles [report_pdf, downloads_report_pdf, backup_report_pdf])) \<and>
   mover_warningCount (fst (snd (organizeFiles (newFileMover False) three_reports_world
       ''/d'' (classifyFiles [report_pdf, downloads_report_pdf, backup_report_pdf])))) = 2 \<and>
   mover_successCount (fst (snd (organizeFiles (newFileMover False) three_reports_world
       ''/d'' (classifyFiles [report_pdf, downloads_report_pdf, backup_report_pdf])))) = 3 \<and>
   map (nodes (snd (snd (organizeFiles (newFileMover False) three_reports_world ''/d''
       (classifyFiles [report_pdf, downloads_report_pdf, backup_report_pdf])))))
     [''/d/report.pdf'', ''/x/report.pdf'', ''/y/report.pdf'',
      ''/d/Documents/report.pdf'',
      ''/d/Documents/report_20261102_090507.pdf'']
     = [None, None, None, Some (File 1), Some (File 5)]"
proof -
  have a: "classifyFile downloads_report_pdf = classifyFile report_pdf"
    "classifyFile backup_report_pdf = classifyFile report_pdf"
    by code_simp+
  show ?thesis
    using a by (simp add: collision_example_defs)
qed

end
